theory Spec2Isabelle
  imports Complex_Main "HOL-Library.AList"
begin

section \<open>The Dental Kids application controller (js/app.js)\<close>

text \<open>
  The class \<^verbatim>\<open>DentalKidsApp\<close> of \<^verbatim>\<open>js/app.js\<close> keeps three fields of its own
  (\<^verbatim>\<open>currentSection\<close>, \<^verbatim>\<open>soundEnabled\<close>, \<^verbatim>\<open>userProgress\<close>) and works on two pieces
  of browser state: the slot \<^verbatim>\<open>dentalKidsProgress\<close> of \<^verbatim>\<open>localStorage\<close> and the page.
  Each method becomes a function from the state before the call to the state after it.
  The browser is taken to do its part: the storage accepts every write, and the elements
  that a method uses without a test exist.

  Strings are \<^typ>\<open>string\<close>: a character is a byte of the UTF-8 form of the text, so an
  emoji is a run of four characters. The emoji that the source puts in front of the
  titles are left out of the literals below.
\<close>

subsection \<open>JSON values and \<^verbatim>\<open>JSON.stringify\<close>\<close>

text \<open>
  The values that \<^verbatim>\<open>JSON.parse\<close> can return and \<^verbatim>\<open>JSON.stringify\<close> can print. A number
  is an \<^typ>\<open>int\<close>: it stands for the JavaScript number of the same value, which is exact
  between \<open>-(2^53 - 1)\<close> and \<open>2^53 - 1\<close>; zero and negative zero are not told apart.
  An object lists its properties in property order; its keys are pairwise different.
\<close>

datatype json =
    JNull
  | JBool bool
  | JNum int
  | JStr string
  | JArr "json list"
  | JObj "(string \<times> json) list"

definition hex_digit :: "nat \<Rightarrow> char" where
  "hex_digit d = ''0123456789abcdef'' ! d"

text \<open>
  \<^verbatim>\<open>QuoteJSONString\<close>: the quotation mark and the reverse solidus get a backslash, the
  five control characters with a short form use it, every other character below
  \<open>0x20\<close> becomes \<^verbatim>\<open>\u00xx\<close> with lower-case hexadecimal digits, and all other
  characters stand for themselves.
\<close>

definition quote_char :: "char \<Rightarrow> string" where
  "quote_char c =
     (if c = CHR 0x22 then [CHR 0x5C, CHR 0x22]
      else if c = CHR 0x5C then [CHR 0x5C, CHR 0x5C]
      else if c = CHR 0x08 then [CHR 0x5C, CHR ''b'']
      else if c = CHR 0x0C then [CHR 0x5C, CHR ''f'']
      else if c = CHR 0x0A then [CHR 0x5C, CHR ''n'']
      else if c = CHR 0x0D then [CHR 0x5C, CHR ''r'']
      else if c = CHR 0x09 then [CHR 0x5C, CHR ''t'']
      else if (of_char c :: nat) < 0x20 then
        [CHR 0x5C, CHR ''u'', CHR ''0'', CHR ''0'',
         hex_digit (of_char c div 16), hex_digit (of_char c mod 16)]
      else [c])"

definition quote :: "string \<Rightarrow> string" where
  "quote s = CHR 0x22 # concat (map quote_char s) @ [CHR 0x22]"

definition digit_char :: "nat \<Rightarrow> char" where
  "digit_char d = ''0123456789'' ! d"

fun digits :: "nat \<Rightarrow> string" where
  "digits n = (if n < 10 then [digit_char n] else digits (n div 10) @ [digit_char (n mod 10)])"

declare digits.simps [simp del]

definition Number_toString :: "int \<Rightarrow> string" where
  "Number_toString n = (if n < 0 then CHR ''-'' # digits (nat (- n)) else digits (nat n))"

fun commas :: "string list \<Rightarrow> string" where
  "commas [] = []"
| "commas [x] = x"
| "commas (x # y # ys) = x @ CHR '','' # commas (y # ys)"

fun JSON_stringify :: "json \<Rightarrow> string" where
  "JSON_stringify JNull = ''null''"
| "JSON_stringify (JBool b) = (if b then ''true'' else ''false'')"
| "JSON_stringify (JNum n) = Number_toString n"
| "JSON_stringify (JStr s) = quote s"
| "JSON_stringify (JArr vs) = ''['' @ commas (map JSON_stringify vs) @ '']''"
| "JSON_stringify (JObj kvs) =
     ''{'' @ commas (map (\<lambda>(k, v). quote k @ '':'' @ JSON_stringify v) kvs) @ ''}''"

subsection \<open>\<^verbatim>\<open>JSON.parse\<close>\<close>

text \<open>
  \<^verbatim>\<open>JSON.parse\<close> either returns a value or throws a \<^verbatim>\<open>SyntaxError\<close>. The parser below
  reads the JSON grammar by recursive descent. It covers the texts whose numbers are
  integers without fraction and exponent, whose \<^verbatim>\<open>\u\<close> escapes name ASCII characters
  and whose object keys are not strings of digits (JavaScript orders such keys by value,
  not by arrival). When it meets anything else it answers \<open>Unmodelled\<close>: the model
  does not say what \<^verbatim>\<open>JSON.parse\<close> does with such a text.
\<close>

datatype error = SyntaxError | Unmodelled

datatype 'a parsed = Ok 'a string | Err error

fun pmap :: "('a \<Rightarrow> 'b) \<Rightarrow> 'a parsed \<Rightarrow> 'b parsed" where
  "pmap f (Ok x rest) = Ok (f x) rest"
| "pmap f (Err e) = Err e"

definition is_ws :: "char \<Rightarrow> bool" where
  "is_ws c \<longleftrightarrow> c = CHR 0x20 \<or> c = CHR 0x09 \<or> c = CHR 0x0A \<or> c = CHR 0x0D"

definition skip_ws :: "string \<Rightarrow> string" where
  "skip_ws s = dropWhile is_ws s"

definition is_digit :: "char \<Rightarrow> bool" where
  "is_digit c \<longleftrightarrow> (48::nat) \<le> of_char c \<and> (of_char c :: nat) \<le> 57"

definition digit_val :: "char \<Rightarrow> nat" where
  "digit_val c = of_char c - 48"

definition hex_val :: "char \<Rightarrow> nat option" where
  "hex_val c =
     (let n = of_char c :: nat in
      if 48 \<le> n \<and> n \<le> 57 then Some (n - 48)
      else if 97 \<le> n \<and> n \<le> 102 then Some (n - 87)
      else if 65 \<le> n \<and> n \<le> 70 then Some (n - 55)
      else None)"

definition hex4 :: "char \<Rightarrow> char \<Rightarrow> char \<Rightarrow> char \<Rightarrow> nat option" where
  "hex4 a b c d =
     (case (hex_val a, hex_val b, hex_val c, hex_val d) of
        (Some x, Some y, Some z, Some w) \<Rightarrow> Some (4096 * x + 256 * y + 16 * z + w)
      | _ \<Rightarrow> None)"

definition unescape :: "char \<Rightarrow> char option" where
  "unescape e =
     (if e = CHR 0x22 then Some (CHR 0x22)
      else if e = CHR 0x5C then Some (CHR 0x5C)
      else if e = CHR ''/'' then Some (CHR ''/'')
      else if e = CHR ''b'' then Some (CHR 0x08)
      else if e = CHR ''f'' then Some (CHR 0x0C)
      else if e = CHR ''n'' then Some (CHR 0x0A)
      else if e = CHR ''r'' then Some (CHR 0x0D)
      else if e = CHR ''t'' then Some (CHR 0x09)
      else None)"

text \<open>The characters of a string after its opening quotation mark, up to the closing one.\<close>

fun str_chars :: "string \<Rightarrow> string parsed" where
  "str_chars [] = Err SyntaxError"
| "str_chars (c # cs) =
     (if c = CHR 0x22 then Ok [] cs
      else if c = CHR 0x5C then
        (case cs of
           [] \<Rightarrow> Err SyntaxError
         | e # es \<Rightarrow>
             if e = CHR ''u'' then
               (case es of
                  h1 # h2 # h3 # h4 # r \<Rightarrow>
                    (case hex4 h1 h2 h3 h4 of
                       None \<Rightarrow> Err SyntaxError
                     | Some n \<Rightarrow>
                         if n < 0x80 then pmap ((#) (char_of n)) (str_chars r)
                         else Err Unmodelled)
                | _ \<Rightarrow> Err SyntaxError)
             else
               (case unescape e of
                  None \<Rightarrow> Err SyntaxError
                | Some d \<Rightarrow> pmap ((#) d) (str_chars es)))
      else if (of_char c :: nat) < 0x20 then Err SyntaxError
      else pmap ((#) c) (str_chars cs))"

fun read_digits :: "nat \<Rightarrow> string \<Rightarrow> nat \<times> string" where
  "read_digits acc [] = (acc, [])"
| "read_digits acc (c # cs) =
     (if is_digit c then read_digits (10 * acc + digit_val c) cs else (acc, c # cs))"

text \<open>The integer part of a number: a single zero, or digits that start with a non-zero one.\<close>

definition parse_int :: "string \<Rightarrow> nat parsed" where
  "parse_int s =
     (case s of
        [] \<Rightarrow> Err SyntaxError
      | c # cs \<Rightarrow>
          if c = CHR ''0'' then Ok 0 cs
          else if is_digit c then (case read_digits 0 (c # cs) of (n, rest) \<Rightarrow> Ok n rest)
          else Err SyntaxError)"

definition parse_number :: "string \<Rightarrow> json parsed" where
  "parse_number s =
     (case (case s of
              [] \<Rightarrow> Err SyntaxError
            | c # cs \<Rightarrow> if c = CHR ''-'' then pmap (\<lambda>n. - int n) (parse_int cs)
                        else pmap int (parse_int s)) of
        Err e \<Rightarrow> Err e
      | Ok n rest \<Rightarrow>
          (case rest of
             [] \<Rightarrow> Ok (JNum n) rest
           | c # cs \<Rightarrow>
               if c = CHR ''.'' \<or> c = CHR ''e'' \<or> c = CHR ''E'' then Err Unmodelled
               else Ok (JNum n) rest))"

definition literal :: "string \<Rightarrow> json \<Rightarrow> string \<Rightarrow> json parsed" where
  "literal w v s = (if take (length w) s = w then Ok v (drop (length w) s) else Err SyntaxError)"

definition is_index :: "string \<Rightarrow> bool" where
  "is_index k \<longleftrightarrow> k \<noteq> [] \<and> list_all is_digit k"

lemma skip_ws_shorter: "skip_ws s = c # cs \<Longrightarrow> length cs < length s"
proof -
  assume "skip_ws s = c # cs"
  moreover have "length (skip_ws s) \<le> length s"
    unfolding skip_ws_def by (rule length_dropWhile_le)
  ultimately show ?thesis by simp
qed

lemma pmap_Ok: "pmap f x = Ok k r \<longleftrightarrow> (\<exists>k'. x = Ok k' r \<and> k = f k')"
  by (cases x) auto

lemma str_chars_shorter: "str_chars s = Ok k rest \<Longrightarrow> length rest < length s"
proof (induction s arbitrary: k rest rule: str_chars.induct)
  case 1
  then show ?case by simp
next
  case (2 c cs)
  show ?case
  proof (cases "c = CHR 0x22")
    case True
    with "2.prems" show ?thesis by simp
  next
    case nq: False
    show ?thesis
    proof (cases "c = CHR 0x5C")
      case False
      with nq "2.prems" obtain k' where c: "\<not> (of_char c :: nat) < 0x20"
        and r: "str_chars cs = Ok k' rest"
        by (auto simp add: pmap_Ok split: if_splits)
      from "2.IH"(3) [OF nq False c r] have "length rest < length cs" .
      then show ?thesis by simp
    next
      case bs: True
      show ?thesis
      proof (cases cs)
        case Nil
        with nq bs "2.prems" show ?thesis by simp
      next
        case (Cons e es)
        show ?thesis
        proof (cases "e = CHR ''u''")
          case False
          with nq bs Cons "2.prems" obtain d k' where "unescape e = Some d" "str_chars es = Ok k' rest"
            by (auto simp add: pmap_Ok split: option.splits)
          with "2.IH"(2) [OF nq bs Cons False] have "length rest < length es"
            by auto
          with Cons show ?thesis by simp
        next
          case u: True
          with nq bs Cons "2.prems" obtain h1 h2 h3 h4 r n k' where
            es: "es = h1 # h2 # h3 # h4 # r" and h: "hex4 h1 h2 h3 h4 = Some n" and n: "n < 0x80"
            and r: "str_chars r = Ok k' rest"
            by (auto simp add: pmap_Ok split: list.splits option.splits if_splits)
          from "2.IH"(1) [OF nq bs Cons u es refl refl refl h n r] have "length rest < length r" .
          with Cons es show ?thesis by simp
        qed
      qed
    qed
  qed
qed

text \<open>
  A value, the elements of an array after its opening bracket, and the members of an
  object after its opening brace. A repeated key keeps its first place and takes the
  last value. The tests \<open>length cs < length s\<close> always succeed (a value takes at least
  one character, see \<open>parse_value_shorter\<close>); they are there for the termination proof.
\<close>

function parse_value :: "string \<Rightarrow> json parsed"
  and parse_elements :: "string \<Rightarrow> json list parsed"
  and parse_members :: "string \<Rightarrow> (string \<times> json) list parsed"
where
  "parse_value s =
     (case skip_ws s of
        [] \<Rightarrow> Err SyntaxError
      | c # cs \<Rightarrow>
          if c = CHR ''n'' then literal ''null'' JNull (c # cs)
          else if c = CHR ''t'' then literal ''true'' (JBool True) (c # cs)
          else if c = CHR ''f'' then literal ''false'' (JBool False) (c # cs)
          else if c = CHR 0x22 then pmap JStr (str_chars cs)
          else if c = CHR ''-'' \<or> is_digit c then parse_number (c # cs)
          else if c = CHR ''['' then
            (case skip_ws cs of
               [] \<Rightarrow> Err SyntaxError
             | d # ds \<Rightarrow> if d = CHR '']'' then Ok (JArr []) ds else pmap JArr (parse_elements cs))
          else if c = CHR ''{'' then
            (case skip_ws cs of
               [] \<Rightarrow> Err SyntaxError
             | d # ds \<Rightarrow>
                 if d = CHR ''}'' then Ok (JObj []) ds
                 else
                   (case parse_members cs of
                      Err e \<Rightarrow> Err e
                    | Ok kvs rest \<Rightarrow>
                        if list_ex (\<lambda>(k, v). is_index k) kvs then Err Unmodelled
                        else Ok (JObj (foldl (\<lambda>obj (k, v). AList.update k v obj) [] kvs)) rest))
          else Err SyntaxError)"
| "parse_elements s =
     (case parse_value s of
        Err e \<Rightarrow> Err e
      | Ok v rest \<Rightarrow>
          (case skip_ws rest of
             [] \<Rightarrow> Err SyntaxError
           | c # cs \<Rightarrow>
               if c = CHR '']'' then Ok [v] cs
               else if c = CHR '','' \<and> length cs < length s then pmap ((#) v) (parse_elements cs)
               else Err SyntaxError))"
| "parse_members s =
     (case skip_ws s of
        [] \<Rightarrow> Err SyntaxError
      | q # qs \<Rightarrow>
          if q = CHR 0x22 then
            (case str_chars qs of
               Err e \<Rightarrow> Err e
             | Ok k rest \<Rightarrow>
                 (case skip_ws rest of
                    [] \<Rightarrow> Err SyntaxError
                  | d # ds \<Rightarrow>
                      if d = CHR '':'' then
                        (case parse_value ds of
                           Err e \<Rightarrow> Err e
                         | Ok v rest' \<Rightarrow>
                             (case skip_ws rest' of
                                [] \<Rightarrow> Err SyntaxError
                              | c # cs \<Rightarrow>
                                  if c = CHR ''}'' then Ok [(k, v)] cs
                                  else if c = CHR '','' \<and> length cs < length s then
                                    pmap ((#) (k, v)) (parse_members cs)
                                  else Err SyntaxError))
                      else Err SyntaxError))
          else Err SyntaxError)"
  by pat_completeness auto
termination
  by (relation "measure (\<lambda>x. case x of Inl s \<Rightarrow> 2 * length s
                                   | Inr (Inl s) \<Rightarrow> 2 * length s + 1
                                   | Inr (Inr s) \<Rightarrow> 2 * length s + 1)")
     (auto dest!: skip_ws_shorter str_chars_shorter)

declare parse_value.simps [simp del] parse_elements.simps [simp del]
  parse_members.simps [simp del]

text \<open>The text is one value, with white space around it and nothing else.\<close>

definition JSON_parse :: "string \<Rightarrow> error + json" where
  "JSON_parse text =
     (case parse_value text of
        Err e \<Rightarrow> Inl e
      | Ok v rest \<Rightarrow> if skip_ws rest = [] then Inr v else Inl SyntaxError)"

subsection \<open>The progress record\<close>

text \<open>
  The object literals of \<^verbatim>\<open>awardBadge\<close> (a badge) and of \<^verbatim>\<open>loadProgress\<close> (the record),
  with their properties in the order of the source. The field \<open>userProgress\<close> of the
  controller is taken to hold an object of this shape; \<open>toJSON\<close> is that object as a
  JSON value.
\<close>

record Badge =
  id_badge :: string
  name :: string
  icon :: string
  earnedAt :: string

record ProgressRecord =
  completedProcedures :: "string list"
  badges :: "Badge list"
  soundEnabled_pr :: bool
  visitCount :: int

definition Badge_toJSON :: "Badge \<Rightarrow> json" where
  "Badge_toJSON b =
     JObj [(''id'', JStr (id_badge b)), (''name'', JStr (name b)),
           (''icon'', JStr (icon b)), (''earnedAt'', JStr (earnedAt b))]"

definition toJSON :: "ProgressRecord \<Rightarrow> json" where
  "toJSON r =
     JObj [(''completedProcedures'', JArr (map JStr (completedProcedures r))),
           (''badges'', JArr (map Badge_toJSON (badges r))),
           (''soundEnabled'', JBool (soundEnabled_pr r)),
           (''visitCount'', JNum (visitCount r))]"

definition defaultProgress :: ProgressRecord where
  "defaultProgress =
     \<lparr>completedProcedures = [], badges = [], soundEnabled_pr = True, visitCount = 0\<rparr>"

text \<open>
  \<^verbatim>\<open>loadProgress\<close>, given what \<^verbatim>\<open>localStorage.getItem('dentalKidsProgress')\<close> answers:
  \<open>None\<close> for \<^verbatim>\<open>null\<close>. The empty string is falsy. The method has no handler for the
  exception of \<^verbatim>\<open>JSON.parse\<close>, so the exception is its own.
\<close>

definition loadProgress :: "string option \<Rightarrow> error + json" where
  "loadProgress savedProgress =
     (case savedProgress of
        None \<Rightarrow> Inr (toJSON defaultProgress)
      | Some text \<Rightarrow> if text \<noteq> [] then JSON_parse text else Inr (toJSON defaultProgress))"

subsection \<open>The page and the controller\<close>

text \<open>
  What the methods read and write of the page: whether the elements they look up exist,
  the class \<^verbatim>\<open>show\<close> of the modal, its title and content, the overflow style of the
  body, the classes of the \<^verbatim>\<open>.content-section\<close> elements and the badge notifications
  appended to the body. Elements whose id ends in \<^verbatim>\<open>-section\<close> are taken to be content
  sections. The classes of the navigation buttons, the sounds, the log lines and the
  timers that only drive animations are left out: no method reads them back.
\<close>

record section_elem =
  sid :: string
  active :: bool
  fadeOut :: bool
  fadeIn :: bool

text \<open>
  The markup put into \<^verbatim>\<open>#procedure-content\<close>: \<open>ProcedureSteps i h p s\<close> is the
  \<^verbatim>\<open>procedure-steps\<close> block with step indicator \<open>i\<close>, heading \<open>h\<close> and a button whose
  handler is \<^verbatim>\<open>app.nextProcedureStep(p, s)\<close>; \<open>StepContent s p\<close> is
  \<^verbatim>\<open><div class="step-content">Step s content for p</div>\<close>; \<open>Text t\<close> is plain text.
\<close>

datatype html =
    Empty
  | ProcedureSteps string string string string
  | StepContent string string
  | Text string

record page =
  has_modal :: bool
  has_modal_title :: bool
  has_procedure_content :: bool
  has_sound_toggle :: bool
  has_sound_icon :: bool
  modal_show :: bool
  modal_title :: string
  procedure_content :: html
  body_overflow :: string
  sections :: "section_elem list"
  notifications :: "(string \<times> string) list"

text \<open>
  The controller with the browser state it works on. \<open>timers\<close> holds the section
  names of the pending callbacks that \<^verbatim>\<open>navigateToSection\<close> hands to \<^verbatim>\<open>setTimeout\<close>.
\<close>

record app =
  currentSection :: string
  soundEnabled :: bool
  userProgress :: ProgressRecord
  localStorage :: "string option"
  page :: page
  timers :: "string list"

text \<open>
  The constructor reads the record with \<^verbatim>\<open>loadProgress\<close> and starts on the home section
  with the sound enabled; it does not look at the \<open>soundEnabled\<close> of the record. What
  \<^verbatim>\<open>init\<close> then does (listeners, the loading screen, the welcome sound) changes nothing
  of the state kept here. \<open>fromJSON\<close> reads a JSON value as a record: it is defined on
  the objects with exactly the properties of the two literals, in their order. For a
  value of another shape the model does not say what the controller does.
\<close>

definition string_fromJSON :: "json \<Rightarrow> string option" where
  "string_fromJSON v = (case v of JStr s \<Rightarrow> Some s | _ \<Rightarrow> None)"

definition Badge_fromJSON :: "json \<Rightarrow> Badge option" where
  "Badge_fromJSON v =
     (case v of
        JObj [(k1, JStr i), (k2, JStr n), (k3, JStr c), (k4, JStr t)] \<Rightarrow>
          if k1 = ''id'' \<and> k2 = ''name'' \<and> k3 = ''icon'' \<and> k4 = ''earnedAt''
          then Some \<lparr>id_badge = i, name = n, icon = c, earnedAt = t\<rparr>
          else None
      | _ \<Rightarrow> None)"

definition fromJSON :: "json \<Rightarrow> ProgressRecord option" where
  "fromJSON v =
     (case v of
        JObj [(k1, JArr cs), (k2, JArr bs), (k3, JBool s), (k4, JNum n)] \<Rightarrow>
          if k1 = ''completedProcedures'' \<and> k2 = ''badges'' \<and> k3 = ''soundEnabled'' \<and>
             k4 = ''visitCount''
          then
            (case (those (map string_fromJSON cs), those (map Badge_fromJSON bs)) of
               (Some cs', Some bs') \<Rightarrow>
                 Some \<lparr>completedProcedures = cs', badges = bs', soundEnabled_pr = s,
                       visitCount = n\<rparr>
             | _ \<Rightarrow> None)
          else None
      | _ \<Rightarrow> None)"

definition DentalKidsApp :: "page \<Rightarrow> string option \<Rightarrow> error + app" where
  "DentalKidsApp pg storage =
     (case loadProgress storage of
        Inl e \<Rightarrow> Inl e
      | Inr v \<Rightarrow>
          (case fromJSON v of
             None \<Rightarrow> Inl Unmodelled
           | Some r \<Rightarrow>
               Inr \<lparr>currentSection = ''home'', soundEnabled = True, userProgress = r,
                    localStorage = storage, page = pg, timers = []\<rparr>))"

subsection \<open>Navigation\<close>

text \<open>
  \<^verbatim>\<open>navigateToSection(sectionName, activeButton = null)\<close>. The classes of the buttons
  are not kept, so of \<open>activeButton\<close> the model keeps whether one is passed. When none
  is passed, the method looks the button up with the selector
  \<^verbatim>\<open>[data-section="sectionName"]\<close>, after it has set \<open>currentSection\<close> and before it
  touches the sections. A name with no quotation mark, backslash or line break stands in
  the selector as it is, and the lookup returns. The browser refuses some of the other
  names with an exception; the model does not say which, and answers \<open>Unmodelled\<close> for
  all of them.
\<close>

definition plain_name :: "string \<Rightarrow> bool" where
  "plain_name s \<longleftrightarrow>
     list_all (\<lambda>c. c \<noteq> CHR 0x22 \<and> c \<noteq> CHR 0x5C \<and> c \<noteq> CHR 0x0A \<and> c \<noteq> CHR 0x0D \<and>
                    c \<noteq> CHR 0x0C) s"

definition navigateToSection :: "string \<Rightarrow> bool \<Rightarrow> app \<Rightarrow> error + app" where
  "navigateToSection sectionName activeButton a =
     (if \<not> activeButton \<and> \<not> plain_name sectionName then Inl Unmodelled
      else
        Inr (a\<lparr>currentSection := sectionName,
               page := (page a)\<lparr>sections :=
                 map (\<lambda>s. s\<lparr>active := False, fadeOut := True\<rparr>) (sections (page a))\<rparr>,
               timers := timers a @ [sectionName]\<rparr>))"

text \<open>\<^verbatim>\<open>getElementById\<close> answers the first element with the id.\<close>

fun add_active :: "string \<Rightarrow> section_elem list \<Rightarrow> section_elem list" where
  "add_active i [] = []"
| "add_active i (s # ss) =
     (if sid s = i then s\<lparr>active := True, fadeIn := True\<rparr> # ss else s # add_active i ss)"

text \<open>The callback of \<^verbatim>\<open>navigateToSection\<close>, run 200 ms later.\<close>

definition showTargetSection :: "string \<Rightarrow> app \<Rightarrow> app" where
  "showTargetSection sectionName a =
     (case find (\<lambda>s. sid s = sectionName @ ''-section'') (sections (page a)) of
        None \<Rightarrow> a
      | Some targetSection \<Rightarrow>
          a\<lparr>page := (page a)\<lparr>sections :=
                add_active (sectionName @ ''-section'')
                  (map (\<lambda>s. s\<lparr>fadeOut := False\<rparr>) (sections (page a)))\<rparr>\<rparr>)"

definition fire_timer :: "app \<Rightarrow> app" where
  "fire_timer a =
     (case timers a of
        [] \<Rightarrow> a
      | sectionName # rest \<Rightarrow> showTargetSection sectionName (a\<lparr>timers := rest\<rparr>))"

text \<open>
  The global \<^verbatim>\<open>showSection\<close> calls \<^verbatim>\<open>navigateToSection\<close> without a button. The click
  listener of a navigation button (\<^verbatim>\<open>setupNavigation\<close>) calls it with the
  \<^verbatim>\<open>data-section\<close> of the button and the button; that call returns for every name
  (\<open>navigateToSection_button\<close>), so the listener never takes its second case.
\<close>

definition showSection :: "string \<Rightarrow> app \<Rightarrow> error + app" where
  "showSection sectionName a = navigateToSection sectionName False a"

definition navButton_click :: "string \<Rightarrow> app \<Rightarrow> app" where
  "navButton_click targetSection a =
     (case navigateToSection targetSection True a of Inr a' \<Rightarrow> a' | Inl e \<Rightarrow> a)"

subsection \<open>The procedure modal\<close>

record procedure_entry =
  title :: string
  content :: html

definition cleaning :: procedure_entry where
  "cleaning =
     \<lparr>title = ''Tooth Cleaning Adventure'',
      content = ProcedureSteps ''Step 1 of 3: SHOW'' ''Let me show you how we clean teeth!''
                  ''cleaning'' ''tell''\<rparr>"

definition xray :: procedure_entry where
  "xray =
     \<lparr>title = ''X-Ray Superhero Vision'',
      content = ProcedureSteps ''Step 1 of 3: SHOW'' ''X-rays give us superhero vision!''
                  ''xray'' ''tell''\<rparr>"

definition filling :: procedure_entry where
  "filling =
     \<lparr>title = ''Cavity Filling Hero Mission'',
      content = ProcedureSteps ''Step 1 of 3: SHOW'' ''We're tooth repair heroes!''
                  ''filling'' ''tell''\<rparr>"

definition checkup :: procedure_entry where
  "checkup =
     \<lparr>title = ''Dental Treasure Hunt'',
      content = ProcedureSteps ''Step 1 of 3: SHOW''
                  ''Let's go on a treasure hunt in your mouth!'' ''checkup'' ''tell''\<rparr>"

definition procedures :: "(string \<times> procedure_entry) list" where
  "procedures =
     [(''cleaning'', cleaning), (''xray'', xray), (''filling'', filling), (''checkup'', checkup)]"

text \<open>
  \<^verbatim>\<open>procedures\<close> is an object literal, so \<^verbatim>\<open>procedures[procedureType]\<close> also finds
  the properties that every object inherits from \<^verbatim>\<open>Object.prototype\<close>. Their values are
  functions (for \<^verbatim>\<open>__proto__\<close> the prototype object): truthy, and without a \<^verbatim>\<open>title\<close> or
  a \<^verbatim>\<open>content\<close> property.
\<close>

definition Object_prototype_keys :: "string list" where
  "Object_prototype_keys =
     [''constructor'', ''hasOwnProperty'', ''isPrototypeOf'', ''propertyIsEnumerable'',
      ''toLocaleString'', ''toString'', ''valueOf'', ''__proto__'', ''__defineGetter__'',
      ''__defineSetter__'', ''__lookupGetter__'', ''__lookupSetter__'']"

datatype js_value = Entry procedure_entry | Inherited

definition procedures_get :: "string \<Rightarrow> js_value option" where
  "procedures_get k =
     (case map_of procedures k of
        Some e \<Rightarrow> Some (Entry e)
      | None \<Rightarrow> if k \<in> set Object_prototype_keys then Some Inherited else None)"

definition getProcedureData :: "string \<Rightarrow> js_value" where
  "getProcedureData procedureType =
     (case procedures_get procedureType of Some v \<Rightarrow> v | None \<Rightarrow> Entry cleaning)"

text \<open>
  Reading \<^verbatim>\<open>.title\<close> and \<^verbatim>\<open>.content\<close> gives \<^verbatim>\<open>undefined\<close> on an inherited value.
  Assigning \<^verbatim>\<open>undefined\<close> to \<^verbatim>\<open>textContent\<close> empties the element; assigning it to
  \<^verbatim>\<open>innerHTML\<close> writes the text \<^verbatim>\<open>undefined\<close>.
\<close>

fun title_text :: "js_value \<Rightarrow> string" where
  "title_text (Entry e) = title e"
| "title_text Inherited = []"

fun content_html :: "js_value \<Rightarrow> html" where
  "content_html (Entry e) = content e"
| "content_html Inherited = Text ''undefined''"

definition showProcedureModal :: "string \<Rightarrow> app \<Rightarrow> app" where
  "showProcedureModal procedureType a =
     (if has_modal (page a) \<and> has_modal_title (page a) \<and> has_procedure_content (page a) then
        (let procedureData = getProcedureData procedureType in
         a\<lparr>page := (page a)\<lparr>modal_title := title_text procedureData,
                             procedure_content := content_html procedureData,
                             modal_show := True,
                             body_overflow := ''hidden''\<rparr>\<rparr>)
      else a)"

text \<open>
  \<^verbatim>\<open>startProcedure\<close> plays the click sound, opens the modal and then animates the card,
  which it looks up by the procedure type when the modal is already open.
\<close>

definition startProcedure :: "string \<Rightarrow> app \<Rightarrow> app" where
  "startProcedure procedureType a = showProcedureModal procedureType a"

definition closeModal :: "app \<Rightarrow> app" where
  "closeModal a =
     (if has_modal (page a) then a\<lparr>page := (page a)\<lparr>modal_show := False, body_overflow := []\<rparr>\<rparr>
      else a)"

definition getProcedureStepContent :: "string \<Rightarrow> string \<Rightarrow> html" where
  "getProcedureStepContent procedureType step = StepContent step procedureType"

definition nextProcedureStep :: "string \<Rightarrow> string \<Rightarrow> app \<Rightarrow> app" where
  "nextProcedureStep procedureType step a =
     (if \<not> has_procedure_content (page a) then a
      else a\<lparr>page := (page a)\<lparr>procedure_content :=
                  getProcedureStepContent procedureType step\<rparr>\<rparr>)"

subsection \<open>Progress, badges and sound\<close>

text \<open>
  \<^verbatim>\<open>Math.round\<close> rounds to the nearest integer, a half upwards. The quotient and the
  product of \<^verbatim>\<open>calculateCompletionRate\<close> are exact in double precision (an array has
  fewer than \<open>2^32\<close> elements, and a division by four only changes the exponent), so they
  are computed over the reals.
\<close>

definition Math_round :: "real \<Rightarrow> int" where
  "Math_round x = \<lfloor>x + 1 / 2\<rfloor>"

definition calculateCompletionRate :: "app \<Rightarrow> int" where
  "calculateCompletionRate a =
     (let totalProcedures = 4;
          completed = real (length (completedProcedures (userProgress a)))
      in Math_round ((completed / totalProcedures) * 100))"

definition saveProgress :: "app \<Rightarrow> app" where
  "saveProgress a =
     (let r = (userProgress a)\<lparr>soundEnabled_pr := soundEnabled a\<rparr>
      in a\<lparr>userProgress := r, localStorage := Some (JSON_stringify (toJSON r))\<rparr>)"

definition showBadgeNotification :: "string \<Rightarrow> string \<Rightarrow> app \<Rightarrow> app" where
  "showBadgeNotification badgeName badgeIcon a =
     a\<lparr>page := (page a)\<lparr>notifications := notifications (page a) @ [(badgeName, badgeIcon)]\<rparr>\<rparr>"

text \<open>\<open>now\<close> is the value of \<^verbatim>\<open>new Date().toISOString()\<close> at the call.\<close>

definition awardBadge :: "string \<Rightarrow> string \<Rightarrow> string \<Rightarrow> string \<Rightarrow> app \<Rightarrow> app" where
  "awardBadge badgeId badgeName badgeIcon now a =
     (case find (\<lambda>b. id_badge b = badgeId) (badges (userProgress a)) of
        Some b \<Rightarrow> a
      | None \<Rightarrow>
          showBadgeNotification badgeName badgeIcon
            (saveProgress
               (a\<lparr>userProgress := (userProgress a)\<lparr>badges :=
                     badges (userProgress a) @
                       [\<lparr>id_badge = badgeId, name = badgeName, icon = badgeIcon,
                         earnedAt = now\<rparr>]\<rparr>\<rparr>)))"

text \<open>
  The click listener of \<^verbatim>\<open>#sound-toggle\<close>. \<^verbatim>\<open>setupSoundToggle\<close> installs it when the
  button and its icon both exist; without it a click does nothing.
\<close>

definition soundToggle_click :: "app \<Rightarrow> app" where
  "soundToggle_click a = saveProgress (a\<lparr>soundEnabled := \<not> soundEnabled a\<rparr>)"

definition toggleSound :: "app \<Rightarrow> app" where
  "toggleSound a =
     (if has_sound_toggle (page a) \<and> has_sound_icon (page a) then soundToggle_click a else a)"

subsection \<open>Sequences of operations\<close>

text \<open>
  What the user and the page can do to the controller. \<open>Navigate s\<close> is the click on
  a navigation button whose \<^verbatim>\<open>data-section\<close> is \<open>s\<close>, \<open>TimerFires\<close> the run of the
  oldest pending callback.
\<close>

datatype intent =
    Navigate string
  | TimerFires
  | OpenProcedure string
  | AdvanceStep string string
  | CloseModal
  | ToggleSound
  | AwardBadge string string string string
  | Save

fun dispatch :: "intent \<Rightarrow> app \<Rightarrow> app" where
  "dispatch (Navigate s) a = navButton_click s a"
| "dispatch TimerFires a = fire_timer a"
| "dispatch (OpenProcedure p) a = startProcedure p a"
| "dispatch (AdvanceStep p s) a = nextProcedureStep p s a"
| "dispatch CloseModal a = closeModal a"
| "dispatch ToggleSound a = toggleSound a"
| "dispatch (AwardBadge i n c t) a = awardBadge i n c t a"
| "dispatch Save a = saveProgress a"

definition run :: "intent list \<Rightarrow> app \<Rightarrow> app" where
  "run is a = fold dispatch is a"

text \<open>
  A page with the four sections and every element the methods look up, and the
  controller that the constructor makes on it when nothing is persisted.
\<close>

definition home_page :: page where
  "home_page =
     \<lparr>has_modal = True, has_modal_title = True, has_procedure_content = True,
      has_sound_toggle = True, has_sound_icon = True,
      modal_show = False, modal_title = [], procedure_content = Empty, body_overflow = [],
      sections =
        [\<lparr>sid = ''home-section'', active = True, fadeOut = False, fadeIn = False\<rparr>,
         \<lparr>sid = ''procedures-section'', active = False, fadeOut = False, fadeIn = False\<rparr>,
         \<lparr>sid = ''progress-section'', active = False, fadeOut = False, fadeIn = False\<rparr>,
         \<lparr>sid = ''tips-section'', active = False, fadeOut = False, fadeIn = False\<rparr>],
      notifications = []\<rparr>"

definition fresh_app :: app where
  "fresh_app =
     \<lparr>currentSection = ''home'', soundEnabled = True, userProgress = defaultProgress,
      localStorage = None, page = home_page, timers = []\<rparr>"

text \<open>
  The controller after the sound was switched off on \<open>fresh_app\<close> and the page was
  loaded again: the slot and the record say that the sound is off, the flag of the new
  controller says that it is on.
\<close>

definition reloaded_app :: app where
  "reloaded_app =
     \<lparr>currentSection = ''home'', soundEnabled = True,
      userProgress = defaultProgress\<lparr>soundEnabled_pr := False\<rparr>,
      localStorage = Some (JSON_stringify (toJSON (defaultProgress\<lparr>soundEnabled_pr := False\<rparr>))),
      page = home_page, timers = []\<rparr>"

text \<open>The ids of the badges of the record, in the order of the array.\<close>

definition badge_ids :: "app \<Rightarrow> string list" where
  "badge_ids a = map id_badge (badges (userProgress a))"

text \<open>
  The JSON values that \<^verbatim>\<open>JSON.stringify\<close> prints so that the parser reads them back:
  the keys of every object are pairwise different and none is a string of digits.
\<close>

fun wf_json :: "json \<Rightarrow> bool" where
  "wf_json (JArr vs) = (\<forall>v \<in> set vs. wf_json v)"
| "wf_json (JObj kvs) =
     (distinct (map fst kvs) \<and> (\<forall>kv \<in> set kvs. \<not> is_index (fst kv) \<and> wf_json (snd kv)))"
| "wf_json v = True"

text \<open>
  What may follow a number in a text (nothing, or a character that neither continues
  the digits nor starts a fraction or an exponent), the characters a value starts with,
  and the text of one member of an object.
\<close>

definition ends_number :: "string \<Rightarrow> bool" where
  "ends_number rest =
     (case rest of
        [] \<Rightarrow> True
      | c # cs \<Rightarrow> \<not> is_digit c \<and> c \<noteq> CHR ''.'' \<and> c \<noteq> CHR ''e'' \<and> c \<noteq> CHR ''E'')"

definition value_start :: "char \<Rightarrow> bool" where
  "value_start c \<longleftrightarrow>
     c = CHR ''n'' \<or> c = CHR ''t'' \<or> c = CHR ''f'' \<or> c = CHR 0x22 \<or> c = CHR ''-'' \<or>
     is_digit c \<or> c = CHR ''['' \<or> c = CHR ''{''"

definition member_text :: "string \<times> json \<Rightarrow> string" where
  "member_text kv = quote (fst kv) @ '':'' @ JSON_stringify (snd kv)"

section \<open>Properties\<close>

subsection \<open>The parser takes input\<close>

lemma skip_ws_length: "length (skip_ws s) \<le> length s"
  unfolding skip_ws_def by (rule length_dropWhile_le)

lemma literal_shorter: "w \<noteq> [] \<Longrightarrow> literal w v s = Ok x r \<Longrightarrow> length r < length s"
proof -
  assume w: "w \<noteq> []" and l: "literal w v s = Ok x r"
  then have t: "take (length w) s = w" and r: "r = drop (length w) s"
    by (auto simp add: literal_def split: if_splits)
  from t w have "s \<noteq> []" by auto
  with r w show ?thesis by simp
qed

lemma read_digits_length: "read_digits acc s = (n, r) \<Longrightarrow> length r \<le> length s"
  by (induction s arbitrary: acc) (auto split: if_splits simp add: le_Suc_eq)

lemma parse_int_shorter: "parse_int s = Ok n r \<Longrightarrow> length r < length s"
proof (cases s)
  case Nil
  then show "parse_int s = Ok n r \<Longrightarrow> ?thesis" by (simp add: parse_int_def)
next
  case (Cons c cs)
  assume p: "parse_int s = Ok n r"
  show ?thesis
  proof (cases "c = CHR ''0''")
    case True
    with p Cons show ?thesis by (simp add: parse_int_def)
  next
    case False
    with p Cons have d: "is_digit c" and "read_digits 0 (c # cs) = (n, r)"
      by (auto simp add: parse_int_def split: if_splits prod.splits)
    then have "read_digits (digit_val c) cs = (n, r)" by simp
    from read_digits_length [OF this] Cons show ?thesis by simp
  qed
qed

lemma parse_number_shorter: "parse_number s = Ok v r \<Longrightarrow> length r < length s"
proof -
  assume p: "parse_number s = Ok v r"
  then obtain n where
    "(case s of [] \<Rightarrow> Err SyntaxError
      | c # cs \<Rightarrow> if c = CHR ''-'' then pmap (\<lambda>n. - int n) (parse_int cs)
                  else pmap int (parse_int s)) = Ok n r"
    by (auto simp add: parse_number_def split: parsed.splits list.splits if_splits)
  then show ?thesis
    by (cases s) (auto simp add: pmap_Ok split: if_splits dest: parse_int_shorter)
qed

lemma parse_shorter:
  "(\<forall>v r. parse_value s = Ok v r \<longrightarrow> length r < length s)
   \<and> (\<forall>vs r. parse_elements s = Ok vs r \<longrightarrow> length r < length s)
   \<and> (\<forall>kvs r. parse_members s = Ok kvs r \<longrightarrow> length r < length s)"
proof (induction "length s" arbitrary: s rule: less_induct)
  case less
  note IH = less.hyps
  have V: "length r < length s" if p: "parse_value s = Ok v r" for v r
  proof (cases "skip_ws s")
    case Nil
    with p show ?thesis by (subst (asm) parse_value.simps) simp
  next
    case (Cons c cs)
    from skip_ws_length [of s] Cons have l: "Suc (length cs) \<le> length s" by simp
    from p Cons consider
        (lit) w x where "w \<noteq> []" "literal w x (c # cs) = Ok v r"
      | (str) k where "str_chars cs = Ok k r"
      | (num) "parse_number (c # cs) = Ok v r"
      | (empty) d where "skip_ws cs = d # r"
      | (arr) vs where "parse_elements cs = Ok vs r"
      | (obj) kvs where "parse_members cs = Ok kvs r"
      by (subst (asm) parse_value.simps)
         (auto simp add: pmap_Ok split: if_splits list.splits parsed.splits)
    then show ?thesis
    proof cases
      case lit
      from literal_shorter [OF this] l show ?thesis by simp
    next
      case str
      from str_chars_shorter [OF this] l show ?thesis by simp
    next
      case num
      from parse_number_shorter [OF this] l show ?thesis by simp
    next
      case empty
      from skip_ws_length [of cs] empty l show ?thesis by simp
    next
      case arr
      with IH [of cs] l show ?thesis by force
    next
      case obj
      with IH [of cs] l show ?thesis by force
    qed
  qed
  have E: "length r < length s" if p: "parse_elements s = Ok vs r" for vs r
  proof -
    from p obtain v rest c cs where v: "parse_value s = Ok v rest" and w: "skip_ws rest = c # cs"
      and r: "r = cs \<or> (length cs < length s \<and> (\<exists>vs'. parse_elements cs = Ok vs' r))"
      by (subst (asm) parse_elements.simps)
         (auto simp add: pmap_Ok split: if_splits list.splits parsed.splits)
    from V [OF v] skip_ws_length [of rest] w have c: "length cs < length s" by simp
    from r show ?thesis
    proof
      assume "r = cs"
      with c show ?thesis by simp
    next
      assume "length cs < length s \<and> (\<exists>vs'. parse_elements cs = Ok vs' r)"
      with IH [of cs] c show ?thesis by force
    qed
  qed
  have M: "length r < length s" if p: "parse_members s = Ok kvs r" for kvs r
  proof -
    from p obtain q qs k rest d ds v rest' c cs where
      s: "skip_ws s = q # qs" and k: "str_chars qs = Ok k rest" and d: "skip_ws rest = d # ds"
      and v: "parse_value ds = Ok v rest'" and w: "skip_ws rest' = c # cs"
      and r: "r = cs \<or> (length cs < length s \<and> (\<exists>kvs'. parse_members cs = Ok kvs' r))"
      by (subst (asm) parse_members.simps)
         (auto simp add: pmap_Ok split: if_splits list.splits parsed.splits)
    from skip_ws_length [of s] s str_chars_shorter [OF k] skip_ws_length [of rest] d
    have ds: "length ds < length s" by simp
    with IH [of ds] v have "length rest' < length ds" by blast
    with skip_ws_length [of rest'] w ds have c: "length cs < length s" by simp
    from r show ?thesis
    proof
      assume "r = cs"
      with c show ?thesis by simp
    next
      assume "length cs < length s \<and> (\<exists>kvs'. parse_members cs = Ok kvs' r)"
      with IH [of cs] c show ?thesis by force
    qed
  qed
  from V E M show ?case by blast
qed

lemma parse_value_shorter: "parse_value s = Ok v r \<Longrightarrow> length r < length s"
  using parse_shorter by blast

text \<open>So the tests on the lengths in \<open>parse_elements\<close> and \<open>parse_members\<close> can go.\<close>

lemma parse_elements_unguarded:
  "parse_elements s =
     (case parse_value s of
        Err e \<Rightarrow> Err e
      | Ok v rest \<Rightarrow>
          (case skip_ws rest of
             [] \<Rightarrow> Err SyntaxError
           | c # cs \<Rightarrow>
               if c = CHR '']'' then Ok [v] cs
               else if c = CHR '','' then pmap ((#) v) (parse_elements cs)
               else Err SyntaxError))"
proof -
  have "length cs < length s" if "parse_value s = Ok v rest" "skip_ws rest = c # cs"
    for v rest c cs
    using parse_value_shorter [OF that(1)] skip_ws_length [of rest] that(2) by simp
  then show ?thesis
    by (subst parse_elements.simps) (auto split: parsed.splits list.splits)
qed

lemma parse_members_unguarded:
  "parse_members s =
     (case skip_ws s of
        [] \<Rightarrow> Err SyntaxError
      | q # qs \<Rightarrow>
          if q = CHR 0x22 then
            (case str_chars qs of
               Err e \<Rightarrow> Err e
             | Ok k rest \<Rightarrow>
                 (case skip_ws rest of
                    [] \<Rightarrow> Err SyntaxError
                  | d # ds \<Rightarrow>
                      if d = CHR '':'' then
                        (case parse_value ds of
                           Err e \<Rightarrow> Err e
                         | Ok v rest' \<Rightarrow>
                             (case skip_ws rest' of
                                [] \<Rightarrow> Err SyntaxError
                              | c # cs \<Rightarrow>
                                  if c = CHR ''}'' then Ok [(k, v)] cs
                                  else if c = CHR '','' then pmap ((#) (k, v)) (parse_members cs)
                                  else Err SyntaxError))
                      else Err SyntaxError))
          else Err SyntaxError)"
proof -
  have "length cs < length s"
    if "skip_ws s = q # qs" "str_chars qs = Ok k rest" "skip_ws rest = d # ds"
      "parse_value ds = Ok v rest'" "skip_ws rest' = c # cs"
    for q qs k rest d ds v rest' c cs
    using skip_ws_length [of s] that(1) str_chars_shorter [OF that(2)] skip_ws_length [of rest]
      that(3) parse_value_shorter [OF that(4)] skip_ws_length [of rest'] that(5)
    by simp
  then show ?thesis
    by (subst parse_members.simps) (auto split: parsed.splits list.splits)
qed

subsection \<open>Parsing what \<^verbatim>\<open>JSON.stringify\<close> prints\<close>

lemma hex_val_hex_digit: "d < 16 \<Longrightarrow> hex_val (hex_digit d) = Some d"
proof -
  assume "d < 16"
  then have "d = 0 \<or> d = 1 \<or> d = 2 \<or> d = 3 \<or> d = 4 \<or> d = 5 \<or> d = 6 \<or> d = 7
    \<or> d = 8 \<or> d = 9 \<or> d = 10 \<or> d = 11 \<or> d = 12 \<or> d = 13 \<or> d = 14 \<or> d = 15"
    by arith
  then show ?thesis
    by (elim disjE) (simp_all add: hex_val_def hex_digit_def)
qed

lemma str_chars_u:
  "hex4 h1 h2 h3 h4 = Some n \<Longrightarrow> n < 128 \<Longrightarrow>
   str_chars (CHR 0x5C # CHR ''u'' # h1 # h2 # h3 # h4 # x) = pmap ((#) (char_of n)) (str_chars x)"
  by simp

lemma str_chars_quote_char:
  "str_chars (quote_char c @ x) = pmap ((#) c) (str_chars x)"
proof -
  let ?n = "of_char c :: nat"
  consider (q) "c = CHR 0x22" | (b) "c = CHR 0x5C" | (s1) "c = CHR 0x08" | (s2) "c = CHR 0x0C"
    | (s3) "c = CHR 0x0A" | (s4) "c = CHR 0x0D" | (s5) "c = CHR 0x09"
    | (ctl) "?n < 32" "c \<notin> {CHR 0x08, CHR 0x0C, CHR 0x0A, CHR 0x0D, CHR 0x09}"
    | (plain) "\<not> ?n < 32" "c \<noteq> CHR 0x22" "c \<noteq> CHR 0x5C"
    by blast
  then show ?thesis
  proof cases
    case ctl
    from ctl(1) have d: "?n div 16 < 16" "?n mod 16 < 16" by simp_all
    from ctl(1) have ne: "c \<noteq> CHR 0x22" "c \<noteq> CHR 0x5C" by auto
    have q: "quote_char c = [CHR 0x5C, CHR ''u'', CHR ''0'', CHR ''0'',
           hex_digit (?n div 16), hex_digit (?n mod 16)]"
      using ctl ne by (simp add: quote_char_def)
    have z: "hex_val CHR ''0'' = Some 0" by (simp add: hex_val_def)
    have h: "hex4 CHR ''0'' CHR ''0'' (hex_digit (?n div 16)) (hex_digit (?n mod 16)) = Some ?n"
      by (simp add: hex4_def z hex_val_hex_digit d)
    from ctl(1) have n: "?n < 128" by simp
    show ?thesis
      unfolding q using str_chars_u [OF h n] by simp
  next
    case plain
    then have "c \<noteq> CHR 0x08" "c \<noteq> CHR 0x0C" "c \<noteq> CHR 0x0A" "c \<noteq> CHR 0x0D" "c \<noteq> CHR 0x09"
      by auto
    with plain have "quote_char c = [c]" by (simp add: quote_char_def)
    with plain show ?thesis by simp
  qed (simp_all add: quote_char_def unescape_def)
qed

lemma str_chars_quoted:
  "str_chars (concat (map quote_char s) @ CHR 0x22 # rest) = Ok s rest"
  by (induction s) (simp_all add: str_chars_quote_char)

lemma digit_char_props:
  assumes "d < 10"
  shows "is_digit (digit_char d)" "digit_val (digit_char d) = d"
    "digit_char d = CHR ''0'' \<longleftrightarrow> d = 0" "digit_char d \<noteq> CHR ''-''"
proof -
  from assms have "d = 0 \<or> d = 1 \<or> d = 2 \<or> d = 3 \<or> d = 4 \<or> d = 5 \<or> d = 6 \<or> d = 7
    \<or> d = 8 \<or> d = 9"
    by arith
  then have "is_digit (digit_char d) \<and> digit_val (digit_char d) = d
    \<and> (digit_char d = CHR ''0'' \<longleftrightarrow> d = 0) \<and> digit_char d \<noteq> CHR ''-''"
    by (elim disjE) (simp_all add: is_digit_def digit_char_def digit_val_def)
  then show "is_digit (digit_char d)" "digit_val (digit_char d) = d"
    "digit_char d = CHR ''0'' \<longleftrightarrow> d = 0" "digit_char d \<noteq> CHR ''-''"
    by simp_all
qed

lemma read_digits_digits:
  "read_digits acc (digits n @ rest) = read_digits (acc * 10 ^ length (digits n) + n) rest"
proof (induction n arbitrary: acc rest rule: digits.induct)
  case (1 n)
  show ?case
  proof (cases "n < 10")
    case True
    then show ?thesis
      by (subst (1 2) digits.simps) (simp add: digit_char_props mult.commute)
  next
    case False
    have m: "n mod 10 < 10" by simp
    have "read_digits acc (digits n @ rest) =
          read_digits acc (digits (n div 10) @ digit_char (n mod 10) # rest)"
      using False by (subst digits.simps) simp
    also have "\<dots> = read_digits (acc * 10 ^ length (digits (n div 10)) + n div 10)
                       (digit_char (n mod 10) # rest)"
      using False by (rule "1.IH")
    also have "\<dots> = read_digits (10 * (acc * 10 ^ length (digits (n div 10)) + n div 10) + n mod 10) rest"
      by (simp add: digit_char_props [OF m])
    also have "10 * (acc * 10 ^ length (digits (n div 10)) + n div 10) + n mod 10 =
               acc * 10 ^ length (digits n) + n"
      using False by (subst (2) digits.simps) (simp add: algebra_simps)
    finally show ?thesis .
  qed
qed

lemma read_digits_stop: "ends_number rest \<Longrightarrow> read_digits acc rest = (acc, rest)"
  by (cases rest) (simp_all add: ends_number_def)

lemma digits_hd:
  "\<exists>c cs. digits n = c # cs \<and> is_digit c \<and> (c = CHR ''0'' \<longrightarrow> n = 0 \<and> cs = [])"
proof (induction n rule: digits.induct)
  case (1 n)
  show ?case
  proof (cases "n < 10")
    case True
    then show ?thesis by (subst digits.simps) (simp add: digit_char_props)
  next
    case False
    with "1.IH" obtain c cs where
      d: "digits (n div 10) = c # cs" "is_digit c" "c = CHR ''0'' \<longrightarrow> n div 10 = 0 \<and> cs = []"
      by blast
    from False have "n div 10 \<noteq> 0" by simp
    with d False show ?thesis by (subst digits.simps) auto
  qed
qed

lemma parse_int_digits:
  assumes "ends_number rest"
  shows "parse_int (digits n @ rest) = Ok n rest"
proof -
  obtain c cs where d: "digits n = c # cs" "is_digit c" "c = CHR ''0'' \<longrightarrow> n = 0 \<and> cs = []"
    using digits_hd by blast
  have r: "read_digits 0 (digits n @ rest) = (n, rest)"
    by (simp add: read_digits_digits read_digits_stop [OF assms])
  show ?thesis
  proof (cases "c = CHR ''0''")
    case True
    with d show ?thesis by (simp add: parse_int_def)
  next
    case False
    with d r show ?thesis by (simp add: parse_int_def)
  qed
qed

lemma parse_number_Number_toString:
  assumes "ends_number rest"
  shows "parse_number (Number_toString n @ rest) = Ok (JNum n) rest"
proof -
  have e: "(case rest of [] \<Rightarrow> Ok (JNum n) rest
            | c # cs \<Rightarrow> if c = CHR ''.'' \<or> c = CHR ''e'' \<or> c = CHR ''E'' then Err Unmodelled
                        else Ok (JNum n) rest) = Ok (JNum n) rest"
    using assms by (cases rest) (simp_all add: ends_number_def)
  show ?thesis
  proof (cases "n < 0")
    case True
    then show ?thesis
      by (simp add: parse_number_def Number_toString_def parse_int_digits [OF assms] e)
  next
    case False
    obtain c cs where d: "digits (nat n) = c # cs" "is_digit c"
      using digits_hd by blast
    then have "c \<noteq> CHR ''-''" by (auto simp add: is_digit_def)
    with False d parse_int_digits [OF assms, of "nat n"] show ?thesis
      by (simp add: parse_number_def Number_toString_def e)
  qed
qed

lemma value_start_not:
  "value_start c \<Longrightarrow> \<not> is_ws c \<and> c \<noteq> CHR '']'' \<and> c \<noteq> CHR ''}''"
  by (auto simp add: value_start_def is_ws_def is_digit_def)

lemma is_digit_not:
  "is_digit c \<Longrightarrow> c \<noteq> CHR ''n'' \<and> c \<noteq> CHR ''t'' \<and> c \<noteq> CHR ''f'' \<and> c \<noteq> CHR 0x22
     \<and> \<not> is_ws c"
  by (auto simp add: is_ws_def is_digit_def)

lemma skip_ws_Cons: "\<not> is_ws c \<Longrightarrow> skip_ws (c # cs) = c # cs"
  by (simp add: skip_ws_def)

lemma Number_toString_hd:
  "\<exists>c cs. Number_toString n = c # cs \<and> (c = CHR ''-'' \<or> is_digit c)"
proof (cases "n < 0")
  case True
  then show ?thesis by (simp add: Number_toString_def)
next
  case False
  obtain c cs where "digits (nat n) = c # cs" "is_digit c" using digits_hd by blast
  with False show ?thesis by (simp add: Number_toString_def)
qed

lemma stringify_hd: "\<exists>c cs. JSON_stringify v = c # cs \<and> value_start c"
proof (cases v)
  case (JNum n)
  with Number_toString_hd [of n] show ?thesis by (auto simp add: value_start_def)
qed (simp_all add: value_start_def quote_def)

lemma commas_Cons: "xs \<noteq> [] \<Longrightarrow> commas (x # xs) = x @ CHR '','' # commas xs"
  by (cases xs) simp_all

lemma ends_number_sep [simp]:
  "ends_number []" "ends_number (CHR '','' # r)" "ends_number (CHR '']'' # r)"
  "ends_number (CHR ''}'' # r)"
  by (simp_all add: ends_number_def is_digit_def)

lemma parse_value_null: "parse_value (''null'' @ rest) = Ok JNull rest"
  by (subst parse_value.simps) (simp add: skip_ws_def is_ws_def literal_def)

lemma parse_value_true: "parse_value (''true'' @ rest) = Ok (JBool True) rest"
  by (subst parse_value.simps) (simp add: skip_ws_def is_ws_def literal_def)

lemma parse_value_false: "parse_value (''false'' @ rest) = Ok (JBool False) rest"
  by (subst parse_value.simps) (simp add: skip_ws_def is_ws_def literal_def)

lemma parse_value_string: "parse_value (quote s @ rest) = Ok (JStr s) rest"
  by (subst parse_value.simps)
     (simp add: quote_def skip_ws_def is_ws_def str_chars_quoted)

lemma parse_value_number:
  assumes "ends_number rest"
  shows "parse_value (Number_toString n @ rest) = Ok (JNum n) rest"
proof -
  obtain c cs where h: "Number_toString n = c # cs" "c = CHR ''-'' \<or> is_digit c"
    using Number_toString_hd by blast
  then have c: "\<not> is_ws c" "c \<noteq> CHR ''n''" "c \<noteq> CHR ''t''" "c \<noteq> CHR ''f''" "c \<noteq> CHR 0x22"
    using is_digit_not [of c] by (auto simp add: is_ws_def)
  have "parse_value (Number_toString n @ rest) = parse_number (Number_toString n @ rest)"
    unfolding h(1) using c h(2)
    by (subst parse_value.simps) (simp add: skip_ws_Cons)
  then show ?thesis by (simp add: parse_number_Number_toString [OF assms])
qed

lemma parse_elements_commas:
  assumes "vs \<noteq> []"
    and "\<And>v r. v \<in> set vs \<Longrightarrow> ends_number r \<Longrightarrow> parse_value (JSON_stringify v @ r) = Ok v r"
  shows "parse_elements (commas (map JSON_stringify vs) @ CHR '']'' # rest) = Ok vs rest"
  using assms
proof (induction vs rule: list_nonempty_induct)
  case (single v)
  have "parse_value (JSON_stringify v @ CHR '']'' # rest) = Ok v (CHR '']'' # rest)"
    by (rule single) simp_all
  then show ?case
    by (subst parse_elements.simps) (simp add: skip_ws_def is_ws_def)
next
  case (cons v vs)
  let ?x = "commas (map JSON_stringify vs) @ CHR '']'' # rest"
  have c: "commas (map JSON_stringify (v # vs)) @ CHR '']'' # rest =
           JSON_stringify v @ CHR '','' # ?x"
    using cons.hyps by (simp add: commas_Cons)
  have v: "parse_value (JSON_stringify v @ CHR '','' # ?x) = Ok v (CHR '','' # ?x)"
    by (rule cons.prems) simp_all
  have t: "parse_elements ?x = Ok vs rest"
    by (rule cons.IH) (simp add: cons.prems)
  show ?case
    unfolding c
    by (subst parse_elements.simps) (simp add: v t skip_ws_def is_ws_def)
qed

lemma parse_members_step:
  assumes "parse_value (JSON_stringify v @ c # x) = Ok v (c # x)"
  shows "parse_members (member_text (k, v) @ c # x) =
         (if c = CHR ''}'' then Ok [(k, v)] x
          else if c = CHR '','' then pmap ((#) (k, v)) (parse_members x)
          else if is_ws c then parse_members (member_text (k, v) @ c # x)
          else Err SyntaxError)"
proof (cases "is_ws c")
  case True
  then have "c \<noteq> CHR ''}''" "c \<noteq> CHR '',''" by (auto simp add: is_ws_def)
  with True show ?thesis by simp
next
  case False
  have s: "str_chars (concat (map quote_char k) @ CHR 0x22 # CHR '':'' # JSON_stringify v @ c # x)
           = Ok k (CHR '':'' # JSON_stringify v @ c # x)"
    by (rule str_chars_quoted)
  show ?thesis
    using False
    by (subst parse_members.simps)
       (simp add: member_text_def quote_def skip_ws_def is_ws_def s assms)
qed

lemma parse_members_commas:
  assumes "kvs \<noteq> []"
    and "\<And>kv r. kv \<in> set kvs \<Longrightarrow> ends_number r \<Longrightarrow>
           parse_value (JSON_stringify (snd kv) @ r) = Ok (snd kv) r"
  shows "parse_members (commas (map member_text kvs) @ CHR ''}'' # rest) = Ok kvs rest"
  using assms
proof (induction kvs rule: list_nonempty_induct)
  case (single kv)
  have "parse_value (JSON_stringify (snd kv) @ CHR ''}'' # rest) = Ok (snd kv) (CHR ''}'' # rest)"
    by (rule single) simp_all
  from parse_members_step [OF this, of "fst kv"] show ?case by simp
next
  case (cons kv kvs)
  let ?x = "commas (map member_text kvs) @ CHR ''}'' # rest"
  have c: "commas (map member_text (kv # kvs)) @ CHR ''}'' # rest = member_text kv @ CHR '','' # ?x"
    using cons.hyps by (simp add: commas_Cons)
  have v: "parse_value (JSON_stringify (snd kv) @ CHR '','' # ?x) = Ok (snd kv) (CHR '','' # ?x)"
    by (rule cons.prems) simp_all
  have t: "parse_members ?x = Ok kvs rest"
    by (rule cons.IH) (simp add: cons.prems)
  from parse_members_step [OF v, of "fst kv"] show ?case
    unfolding c by (simp add: t)
qed

lemma update_new: "k \<notin> fst ` set acc \<Longrightarrow> AList.update k v acc = acc @ [(k, v)]"
  by (induction acc) auto

lemma foldl_update_distinct:
  "distinct (map fst (acc @ kvs)) \<Longrightarrow>
   foldl (\<lambda>obj (k, v). AList.update k v obj) acc kvs = acc @ kvs"
proof (induction kvs arbitrary: acc)
  case Nil
  then show ?case by simp
next
  case (Cons kv kvs)
  obtain k v where kv: "kv = (k, v)" by (cases kv)
  from Cons.prems have n: "k \<notin> fst ` set acc" by (auto simp add: kv)
  from Cons.prems have d: "distinct (map fst ((acc @ [(k, v)]) @ kvs))" by (simp add: kv)
  show ?case
    using Cons.IH [OF d] by (simp add: kv update_new [OF n])
qed

lemma stringify_obj:
  "JSON_stringify (JObj kvs) = ''{'' @ commas (map member_text kvs) @ ''}''"
proof -
  have "(\<lambda>(k, v). quote k @ '':'' @ JSON_stringify v) = member_text"
    by (auto simp add: member_text_def fun_eq_iff)
  then show ?thesis by simp
qed

theorem parse_value_stringify:
  "wf_json v \<Longrightarrow> ends_number rest \<Longrightarrow> parse_value (JSON_stringify v @ rest) = Ok v rest"
proof (induction v arbitrary: rest)
  case JNull
  show ?case using parse_value_null by simp
next
  case (JBool b)
  show ?case using parse_value_true parse_value_false by (cases b) simp_all
next
  case (JNum n)
  then show ?case by (simp add: parse_value_number)
next
  case (JStr s)
  show ?case using parse_value_string by simp
next
  case (JArr vs)
  show ?case
  proof (cases vs)
    case Nil
    then show ?thesis
      by (subst parse_value.simps) (simp add: skip_ws_def is_ws_def is_digit_def)
  next
    case (Cons v vs')
    obtain c cs where h: "JSON_stringify v = c # cs" "value_start c"
      using stringify_hd by blast
    let ?x = "commas (map JSON_stringify vs) @ CHR '']'' # rest"
    have "\<exists>t. commas (map JSON_stringify vs) = c # t"
      using Cons h(1) by (cases vs') simp_all
    then obtain t where t: "?x = c # t @ CHR '']'' # rest" by auto
    have e: "parse_elements ?x = Ok vs rest"
    proof (rule parse_elements_commas)
      show "vs \<noteq> []" using Cons by simp
      show "parse_value (JSON_stringify v @ r) = Ok v r" if "v \<in> set vs" "ends_number r" for v r
        using that JArr.IH JArr.prems(1) by simp
    qed
    have "parse_value (CHR ''['' # ?x) = Ok (JArr vs) rest"
      using value_start_not [OF h(2)] e
      by (subst parse_value.simps) (simp add: skip_ws_def is_ws_def is_digit_def t)
    then show ?thesis by simp
  qed
next
  case (JObj kvs)
  show ?case
  proof (cases kvs)
    case Nil
    then show ?thesis
      by (subst parse_value.simps) (simp add: skip_ws_def is_ws_def is_digit_def)
  next
    case (Cons kv kvs')
    let ?x = "commas (map member_text kvs) @ CHR ''}'' # rest"
    have "\<exists>t. commas (map member_text kvs) = CHR 0x22 # t"
      using Cons by (cases kvs') (simp_all add: member_text_def quote_def)
    then obtain t where t: "?x = CHR 0x22 # t @ CHR ''}'' # rest" by auto
    have m: "parse_members ?x = Ok kvs rest"
    proof (rule parse_members_commas)
      show "kvs \<noteq> []" using Cons by simp
      show "parse_value (JSON_stringify (snd kv) @ r) = Ok (snd kv) r"
        if "kv \<in> set kvs" "ends_number r" for kv r
      proof (rule JObj.IH)
        show "kv \<in> set kvs" by fact
        show "snd kv \<in> Basic_BNFs.snds kv" by (cases kv) simp
        show "wf_json (snd kv)" using that(1) JObj.prems(1) by simp
        show "ends_number r" by fact
      qed
    qed
    have i: "\<not> list_ex (\<lambda>(k, v). is_index k) kvs"
      using JObj.prems(1) by (auto simp add: list_ex_iff)
    have f: "foldl (\<lambda>obj (k, v). AList.update k v obj) [] kvs = kvs"
      using foldl_update_distinct [of "[]" kvs] JObj.prems(1) by simp
    have "parse_value (CHR ''{'' # ?x) = Ok (JObj kvs) rest"
      using m i f
      by (subst parse_value.simps) (simp add: skip_ws_def is_ws_def is_digit_def t)
    then show ?thesis unfolding stringify_obj by simp
  qed
qed

theorem JSON_parse_stringify: "wf_json v \<Longrightarrow> JSON_parse (JSON_stringify v) = Inr v"
  using parse_value_stringify [of v "[]"] by (simp add: JSON_parse_def skip_ws_def)

lemma wf_toJSON: "wf_json (toJSON r)"
  by (auto simp add: toJSON_def Badge_toJSON_def is_index_def is_digit_def)

lemma stringify_toJSON_nonempty: "JSON_stringify (toJSON r) \<noteq> []"
  by (simp add: toJSON_def)

subsection \<open>Loading and saving\<close>

lemma loadProgress_saved:
  "loadProgress (Some (JSON_stringify (toJSON r))) = Inr (toJSON r)"
  by (simp add: loadProgress_def stringify_toJSON_nonempty JSON_parse_stringify wf_toJSON)

lemma those_strings: "those (map (string_fromJSON \<circ> JStr) cs) = Some cs"
  by (induction cs) (simp_all add: string_fromJSON_def)

lemma Badge_fromJSON_toJSON: "Badge_fromJSON (Badge_toJSON b) = Some b"
  by (simp add: Badge_fromJSON_def Badge_toJSON_def)

lemma those_badges: "those (map (Badge_fromJSON \<circ> Badge_toJSON) bs) = Some bs"
  by (induction bs) (simp_all add: Badge_fromJSON_toJSON)

lemma fromJSON_toJSON: "fromJSON (toJSON r) = Some r"
  by (simp add: fromJSON_def toJSON_def those_strings those_badges)

lemma DentalKidsApp_fresh: "DentalKidsApp home_page None = Inr fresh_app"
  by (simp add: DentalKidsApp_def loadProgress_def fromJSON_toJSON fresh_app_def)

lemma DentalKidsApp_saved:
  "DentalKidsApp pg (Some (JSON_stringify (toJSON r))) =
   Inr \<lparr>currentSection = ''home'', soundEnabled = True, userProgress = r,
        localStorage = Some (JSON_stringify (toJSON r)), page = pg, timers = []\<rparr>"
  by (simp add: DentalKidsApp_def loadProgress_saved fromJSON_toJSON)

text \<open>
  C4 as stated fails. With the text \<open>undefined\<close> in the slot, which is not JSON,
  \<^verbatim>\<open>loadProgress\<close> does not return the default record: the \<^verbatim>\<open>SyntaxError\<close> of
  \<^verbatim>\<open>JSON.parse\<close> leaves the method, and with it the constructor.
\<close>

theorem loadProgress_corrupt_counterexample:
  "loadProgress (Some ''undefined'') = Inl SyntaxError
   \<and> loadProgress (Some ''undefined'') \<noteq> Inr (toJSON defaultProgress)
   \<and> DentalKidsApp home_page (Some ''undefined'') = Inl SyntaxError"
proof -
  have "parse_value ''undefined'' = Err SyntaxError"
    by (subst parse_value.simps) (simp add: skip_ws_def is_ws_def is_digit_def)
  then show ?thesis by (simp add: DentalKidsApp_def loadProgress_def JSON_parse_def)
qed

text \<open>
  C4, amended. \<^verbatim>\<open>loadProgress\<close> returns the default record (no completed procedures,
  no badges, sound enabled, visit count 0) when nothing is persisted and when the
  persisted text is empty. It returns the record that was saved when the slot holds the
  text of a record. On every non-empty text it does what \<^verbatim>\<open>JSON.parse\<close> does there: the
  parsed value, or the exception for a text that does not parse.
\<close>

theorem loadProgress_cases:
  "loadProgress None = Inr (toJSON defaultProgress)
   \<and> loadProgress (Some []) = Inr (toJSON defaultProgress)
   \<and> toJSON defaultProgress =
       JObj [(''completedProcedures'', JArr []), (''badges'', JArr []),
             (''soundEnabled'', JBool True), (''visitCount'', JNum 0)]
   \<and> loadProgress (Some (JSON_stringify (toJSON r))) = Inr (toJSON r)
   \<and> (text \<noteq> [] \<longrightarrow> loadProgress (Some text) = JSON_parse text)"
  by (simp add: loadProgress_saved)
     (simp add: loadProgress_def toJSON_def defaultProgress_def)

theorem loadProgress_cases_witness:
  "loadProgress (Some (JSON_stringify (toJSON
      (defaultProgress\<lparr>completedProcedures := [''cleaning''], visitCount := 12\<rparr>)))) =
   Inr (JObj [(''completedProcedures'', JArr [JStr ''cleaning'']), (''badges'', JArr []),
              (''soundEnabled'', JBool True), (''visitCount'', JNum 12)])
   \<and> loadProgress (Some ''null'') = Inr JNull"
proof -
  have "JSON_parse ''null'' = Inr JNull"
    using parse_value_null [of "[]"] by (simp add: JSON_parse_def skip_ws_def)
  then show ?thesis
    using loadProgress_cases
      [of "defaultProgress\<lparr>completedProcedures := [''cleaning''], visitCount := 12\<rparr>" "''null''"]
    by (simp add: toJSON_def defaultProgress_def)
qed




text \<open>
  What holds of the sound toggle. Two clicks bring the flag \<open>soundEnabled\<close> of the
  controller back to its value. When the toggle and its icon exist, each click inverts
  the flag and writes it into the record and the record into the slot, so that loading
  from the slot gives the record with the new value.
\<close>

lemma toggleSound_persists:
  "soundEnabled (toggleSound (toggleSound a)) = soundEnabled a
   \<and> (has_sound_toggle (page a) \<and> has_sound_icon (page a) \<longrightarrow>
        soundEnabled (toggleSound a) = (\<not> soundEnabled a)
        \<and> loadProgress (localStorage (toggleSound a)) =
            Inr (toJSON ((userProgress a)\<lparr>soundEnabled_pr := \<not> soundEnabled a\<rparr>))
        \<and> loadProgress (localStorage (toggleSound (toggleSound a))) =
            Inr (toJSON ((userProgress a)\<lparr>soundEnabled_pr := soundEnabled a\<rparr>)))"
  by (simp add: toggleSound_def soundToggle_click_def saveProgress_def Let_def
      loadProgress_saved)

text \<open>
  C8 on \<open>fresh_app\<close>, one click and a reload. The click switches the sound off and the
  slot holds the record with \<open>soundEnabled\<close> false. The constructor then makes
  \<open>reloaded_app\<close>: it sets the flag to true and never reads the field of the record, so
  the sound is on again, and the value that was persisted has not survived as the
  setting of the controller. The next save writes the flag over it: the record and the
  slot say true as well. Counted on the field of the record, two clicks on
  \<open>reloaded_app\<close> do not bring it back either: it is false before them and true after.
\<close>

theorem toggleSound_reload:
  "soundEnabled fresh_app
   \<and> \<not> soundEnabled (toggleSound fresh_app)
   \<and> loadProgress (localStorage (toggleSound fresh_app)) =
       Inr (toJSON (defaultProgress\<lparr>soundEnabled_pr := False\<rparr>))
   \<and> DentalKidsApp home_page (localStorage (toggleSound fresh_app)) = Inr reloaded_app
   \<and> soundEnabled reloaded_app
   \<and> \<not> soundEnabled_pr (userProgress reloaded_app)
   \<and> loadProgress (localStorage (saveProgress reloaded_app)) = Inr (toJSON defaultProgress)
   \<and> soundEnabled_pr (userProgress (toggleSound (toggleSound reloaded_app)))"
proof -
  have t: "localStorage (toggleSound fresh_app) =
           Some (JSON_stringify (toJSON (defaultProgress\<lparr>soundEnabled_pr := False\<rparr>)))"
    and f: "soundEnabled fresh_app" "\<not> soundEnabled (toggleSound fresh_app)"
    by (simp_all add: toggleSound_def soundToggle_click_def saveProgress_def Let_def
        fresh_app_def home_page_def)
  have c: "DentalKidsApp home_page (localStorage (toggleSound fresh_app)) = Inr reloaded_app"
    unfolding t by (simp add: DentalKidsApp_saved reloaded_app_def)
  have l: "loadProgress (localStorage (toggleSound fresh_app)) =
           Inr (toJSON (defaultProgress\<lparr>soundEnabled_pr := False\<rparr>))"
    unfolding t by (rule loadProgress_saved)
  have "localStorage (saveProgress reloaded_app) = Some (JSON_stringify (toJSON defaultProgress))"
    by (simp add: saveProgress_def Let_def reloaded_app_def defaultProgress_def)
  then have s: "loadProgress (localStorage (saveProgress reloaded_app)) =
                Inr (toJSON defaultProgress)"
    by (simp add: loadProgress_saved)
  have r: "soundEnabled reloaded_app" "\<not> soundEnabled_pr (userProgress reloaded_app)"
    "soundEnabled_pr (userProgress (toggleSound (toggleSound reloaded_app)))"
    by (simp_all add: reloaded_app_def defaultProgress_def toggleSound_def
        soundToggle_click_def saveProgress_def Let_def home_page_def)
  from f c l s r show ?thesis by simp
qed

subsection \<open>Completion rate\<close>

lemma Math_round_round: "Math_round x = round x"
  by (simp add: Math_round_def round_def)

text \<open>
  C7. For every progress record the completion rate is \<open>round (100 * n / 4)\<close>, where
  \<open>n\<close> is the number of completed procedures and the total is the constant four. This
  is \<open>25 * n\<close>; so none completed gives 0, two give 50 and four give 100.
\<close>

theorem calculateCompletionRate_round:
  "calculateCompletionRate a =
     round (100 * real (length (completedProcedures (userProgress a))) / 4)
   \<and> calculateCompletionRate a = 25 * int (length (completedProcedures (userProgress a)))"
proof -
  let ?n = "length (completedProcedures (userProgress a))"
  have e: "real ?n / 4 * 100 = real_of_int (25 * int ?n)" by simp
  have "calculateCompletionRate a = round (real ?n / 4 * 100)"
    by (simp add: calculateCompletionRate_def Math_round_round Let_def)
  moreover have "real ?n / 4 * 100 = 100 * real ?n / 4" by simp
  moreover have "round (real ?n / 4 * 100) = 25 * int ?n"
    unfolding e by (rule round_of_int)
  ultimately show ?thesis by simp
qed

theorem calculateCompletionRate_witness:
  "calculateCompletionRate fresh_app = 0
   \<and> calculateCompletionRate
        (fresh_app\<lparr>userProgress :=
           defaultProgress\<lparr>completedProcedures := [''cleaning'', ''xray'']\<rparr>\<rparr>) = 50
   \<and> calculateCompletionRate
        (fresh_app\<lparr>userProgress :=
           defaultProgress\<lparr>completedProcedures :=
             [''cleaning'', ''xray'', ''filling'', ''checkup'']\<rparr>\<rparr>) = 100"
  using calculateCompletionRate_round [of fresh_app]
    calculateCompletionRate_round
      [of "fresh_app\<lparr>userProgress :=
             defaultProgress\<lparr>completedProcedures := [''cleaning'', ''xray'']\<rparr>\<rparr>"]
    calculateCompletionRate_round
      [of "fresh_app\<lparr>userProgress :=
             defaultProgress\<lparr>completedProcedures :=
               [''cleaning'', ''xray'', ''filling'', ''checkup'']\<rparr>\<rparr>"]
  by (simp add: fresh_app_def defaultProgress_def)

subsection \<open>Navigation\<close>

lemma navigateToSection_button:
  "navigateToSection s True a =
   Inr (a\<lparr>currentSection := s,
          page := (page a)\<lparr>sections :=
            map (\<lambda>e. e\<lparr>active := False, fadeOut := True\<rparr>) (sections (page a))\<rparr>,
          timers := timers a @ [s]\<rparr>)"
  by (simp add: navigateToSection_def)

lemma navButton_click_eq:
  "navButton_click s a =
   a\<lparr>currentSection := s,
     page := (page a)\<lparr>sections :=
       map (\<lambda>e. e\<lparr>active := False, fadeOut := True\<rparr>) (sections (page a))\<rparr>,
     timers := timers a @ [s]\<rparr>"
  by (simp add: navButton_click_def navigateToSection_button)

lemma find_deactivated:
  "find (\<lambda>s. sid s = i) (map (\<lambda>s. s\<lparr>active := False, fadeOut := True\<rparr>) ss) =
   map_option (\<lambda>s. s\<lparr>active := False, fadeOut := True\<rparr>) (find (\<lambda>s. sid s = i) ss)"
  by (induction ss) auto

lemma filter_active_deactivated:
  "filter active (map (\<lambda>s. s\<lparr>active := False, fadeOut := True\<rparr>) ss) = []"
  by (induction ss) auto

text \<open>
  C3 as stated fails. On the page with the four sections, the call without a button
  for the unknown name \<open>settings\<close> returns, and \<open>currentSection\<close>, which was \<open>home\<close>, is
  \<open>settings\<close> after it; a section was displayed before, and after the callback none is.
\<close>

theorem navigateToSection_unknown_counterexample:
  "currentSection fresh_app = ''home''
   \<and> \<not> isl (navigateToSection ''settings'' False fresh_app)
   \<and> currentSection (projr (navigateToSection ''settings'' False fresh_app)) = ''settings''
   \<and> filter active (sections (page fresh_app)) \<noteq> []
   \<and> filter active
        (sections (page (fire_timer (projr (navigateToSection ''settings'' False fresh_app))))) = []"
  by (simp add: navigateToSection_def plain_name_def fresh_app_def home_page_def fire_timer_def
      showTargetSection_def)

text \<open>
  C3, amended. \<^verbatim>\<open>navigateToSection\<close> rejects no name. Called with the clicked button,
  or without a button for a name that has no quotation mark, backslash or line break,
  it returns for every section name, sets \<open>currentSection\<close> to the name, takes the
  class \<open>active\<close> from every content section and queues its callback behind the pending
  ones. The callback changes nothing when no element \<open>name-section\<close> exists. So, when
  no callback was pending before the call and no such element exists, no section is
  active after the callback has run.
\<close>

theorem navigateToSection_accepts_any:
  "(activeButton \<or> plain_name s \<longrightarrow>
      \<not> isl (navigateToSection s activeButton a)
      \<and> currentSection (projr (navigateToSection s activeButton a)) = s
      \<and> filter active (sections (page (projr (navigateToSection s activeButton a)))) = []
      \<and> timers (projr (navigateToSection s activeButton a)) = timers a @ [s])
   \<and> (find (\<lambda>e. sid e = s @ ''-section'') (sections (page a)) = None \<longrightarrow>
        showTargetSection s a = a)
   \<and> (activeButton \<or> plain_name s \<longrightarrow> timers a = [] \<longrightarrow>
        find (\<lambda>e. sid e = s @ ''-section'') (sections (page a)) = None \<longrightarrow>
        currentSection (fire_timer (projr (navigateToSection s activeButton a))) = s
        \<and> filter active
             (sections (page (fire_timer (projr (navigateToSection s activeButton a))))) = [])"
proof (intro conjI impI)
  assume "find (\<lambda>e. sid e = s @ ''-section'') (sections (page a)) = None"
  then show "showTargetSection s a = a"
    by (simp add: showTargetSection_def)
next
  assume h: "activeButton \<or> plain_name s"
  then have n: "navigateToSection s activeButton a =
      Inr (a\<lparr>currentSection := s,
             page := (page a)\<lparr>sections :=
               map (\<lambda>e. e\<lparr>active := False, fadeOut := True\<rparr>) (sections (page a))\<rparr>,
             timers := timers a @ [s]\<rparr>)"
    by (auto simp add: navigateToSection_def)
  show "\<not> isl (navigateToSection s activeButton a)"
    and "currentSection (projr (navigateToSection s activeButton a)) = s"
    and "filter active (sections (page (projr (navigateToSection s activeButton a)))) = []"
    and "timers (projr (navigateToSection s activeButton a)) = timers a @ [s]"
    unfolding n by (simp_all add: filter_active_deactivated)
  assume "timers a = []"
    and "find (\<lambda>e. sid e = s @ ''-section'') (sections (page a)) = None"
  then show "currentSection (fire_timer (projr (navigateToSection s activeButton a))) = s"
    and "filter active
           (sections (page (fire_timer (projr (navigateToSection s activeButton a))))) = []"
    unfolding n
    by (simp_all add: fire_timer_def showTargetSection_def find_deactivated
        filter_active_deactivated)
qed

theorem navigateToSection_accepts_any_witness:
  "\<not> isl (navigateToSection ''settings'' False fresh_app)
   \<and> currentSection (projr (navigateToSection ''settings'' False fresh_app)) = ''settings''
   \<and> filter active (sections (page (projr (navigateToSection ''settings'' False fresh_app)))) = []
   \<and> timers (projr (navigateToSection ''settings'' False fresh_app)) = [''settings'']
   \<and> showTargetSection ''settings'' fresh_app = fresh_app
   \<and> currentSection (fire_timer (projr (navigateToSection ''settings'' False fresh_app))) =
       ''settings''
   \<and> filter active
        (sections (page (fire_timer (projr (navigateToSection ''settings'' False fresh_app))))) = []
   \<and> \<not> isl (navigateToSection [CHR 0x22] True fresh_app)"
  using navigateToSection_accepts_any [of False "''settings''" fresh_app]
    navigateToSection_accepts_any [of True "[CHR 0x22]" fresh_app]
  by (simp add: plain_name_def fresh_app_def home_page_def)

subsection \<open>Opening the modal\<close>

lemma getProcedureData_fallback:
  "p \<notin> set (map fst procedures) \<Longrightarrow> p \<notin> set Object_prototype_keys \<Longrightarrow>
   getProcedureData p = Entry cleaning"
  by (simp add: getProcedureData_def procedures_get_def procedures_def)

lemma getProcedureData_inherited:
  "p \<in> set Object_prototype_keys \<Longrightarrow> getProcedureData p = Inherited"
  by (auto simp add: getProcedureData_def procedures_get_def procedures_def
      Object_prototype_keys_def)

text \<open>
  C5 as stated fails: the unknown procedure \<open>rootcanal\<close> is not rejected, the modal is
  closed before the call and open after it.
\<close>

theorem showProcedureModal_unknown_counterexample:
  "''rootcanal'' \<notin> {''cleaning'', ''xray'', ''filling'', ''checkup''}
   \<and> \<not> modal_show (page fresh_app)
   \<and> modal_show (page (showProcedureModal ''rootcanal'' fresh_app))"
  by (simp add: showProcedureModal_def fresh_app_def home_page_def Let_def)

text \<open>
  The fallback of \<^verbatim>\<open>getProcedureData\<close>: an id that is neither one of the four keys nor
  the name of an inherited property opens the modal on the cleaning entry.
\<close>

lemma showProcedureModal_falls_back:
  assumes "p \<notin> {''cleaning'', ''xray'', ''filling'', ''checkup''}"
    and "p \<notin> set Object_prototype_keys"
    and "has_modal (page a)" "has_modal_title (page a)" "has_procedure_content (page a)"
  shows "page (showProcedureModal p a) =
         (page a)\<lparr>modal_title := title cleaning, procedure_content := content cleaning,
                   modal_show := True, body_overflow := ''hidden''\<rparr>"
  using assms
  by (simp add: showProcedureModal_def getProcedureData_fallback procedures_def Let_def)

text \<open>
  C5, amended. \<^verbatim>\<open>showProcedureModal\<close> rejects no procedure id. For every id, when the
  modal, its title and its content element exist, the modal is open after the call and
  the body does not scroll; for an id that is none of the four keys and not the name of
  an inherited property, it shows the title and the content of cleaning. When one of the
  three elements is missing the call changes nothing.
\<close>

theorem showProcedureModal_opens:
  "(has_modal (page a) \<and> has_modal_title (page a) \<and> has_procedure_content (page a) \<longrightarrow>
      modal_show (page (showProcedureModal p a))
      \<and> body_overflow (page (showProcedureModal p a)) = ''hidden''
      \<and> (p \<notin> {''cleaning'', ''xray'', ''filling'', ''checkup''} \<longrightarrow>
           p \<notin> set Object_prototype_keys \<longrightarrow>
           modal_title (page (showProcedureModal p a)) = ''Tooth Cleaning Adventure''
           \<and> procedure_content (page (showProcedureModal p a)) =
               ProcedureSteps ''Step 1 of 3: SHOW'' ''Let me show you how we clean teeth!''
                 ''cleaning'' ''tell''))
   \<and> (\<not> (has_modal (page a) \<and> has_modal_title (page a) \<and> has_procedure_content (page a)) \<longrightarrow>
      showProcedureModal p a = a)"
proof (intro conjI impI)
  assume h: "has_modal (page a) \<and> has_modal_title (page a) \<and> has_procedure_content (page a)"
  then show "modal_show (page (showProcedureModal p a))"
    and "body_overflow (page (showProcedureModal p a)) = ''hidden''"
    by (simp_all add: showProcedureModal_def Let_def)
  assume "p \<notin> {''cleaning'', ''xray'', ''filling'', ''checkup''}"
    and "p \<notin> set Object_prototype_keys"
  with h have "page (showProcedureModal p a) =
         (page a)\<lparr>modal_title := title cleaning, procedure_content := content cleaning,
                   modal_show := True, body_overflow := ''hidden''\<rparr>"
    by (simp add: showProcedureModal_falls_back)
  then show "modal_title (page (showProcedureModal p a)) = ''Tooth Cleaning Adventure''"
    and "procedure_content (page (showProcedureModal p a)) =
           ProcedureSteps ''Step 1 of 3: SHOW'' ''Let me show you how we clean teeth!''
             ''cleaning'' ''tell''"
    by (simp_all add: cleaning_def)
next
  assume "\<not> (has_modal (page a) \<and> has_modal_title (page a) \<and> has_procedure_content (page a))"
  then show "showProcedureModal p a = a"
    unfolding showProcedureModal_def by (simp only: if_False)
qed

theorem showProcedureModal_opens_witness:
  "modal_show (page (showProcedureModal ''rootcanal'' fresh_app))
   \<and> body_overflow (page (showProcedureModal ''rootcanal'' fresh_app)) = ''hidden''
   \<and> modal_title (page (showProcedureModal ''rootcanal'' fresh_app)) = ''Tooth Cleaning Adventure''
   \<and> procedure_content (page (showProcedureModal ''rootcanal'' fresh_app)) =
       ProcedureSteps ''Step 1 of 3: SHOW'' ''Let me show you how we clean teeth!''
         ''cleaning'' ''tell''
   \<and> showProcedureModal ''rootcanal'' (fresh_app\<lparr>page := home_page\<lparr>has_modal := False\<rparr>\<rparr>) =
       fresh_app\<lparr>page := home_page\<lparr>has_modal := False\<rparr>\<rparr>"
  using showProcedureModal_opens [of fresh_app "''rootcanal''"]
    showProcedureModal_opens [of "fresh_app\<lparr>page := home_page\<lparr>has_modal := False\<rparr>\<rparr>" "''rootcanal''"]
  by (simp add: fresh_app_def home_page_def Object_prototype_keys_def)

text \<open>
  C9 at the id \<open>constructor\<close>, which is none of the four keys: the lookup finds the
  property that the table inherits, the fallback is not taken, and the modal opens with
  an empty title and the text \<open>undefined\<close> instead of the cleaning entry.
\<close>

theorem showProcedureModal_constructor:
  "''constructor'' \<notin> {''cleaning'', ''xray'', ''filling'', ''checkup''}
   \<and> modal_show (page (showProcedureModal ''constructor'' fresh_app))
   \<and> modal_title (page (showProcedureModal ''constructor'' fresh_app)) = []
   \<and> procedure_content (page (showProcedureModal ''constructor'' fresh_app)) = Text ''undefined''
   \<and> modal_title (page (showProcedureModal ''constructor'' fresh_app)) \<noteq> title cleaning
   \<and> procedure_content (page (showProcedureModal ''constructor'' fresh_app)) \<noteq> content cleaning"
  by (simp add: showProcedureModal_def fresh_app_def home_page_def Let_def
      getProcedureData_inherited Object_prototype_keys_def cleaning_def)

subsection \<open>The modal flow\<close>

lemma nextProcedureStep_fold:
  assumes "has_procedure_content (page a)"
  shows "modal_show (page (fold (nextProcedureStep p) steps a)) = modal_show (page a)
         \<and> has_procedure_content (page (fold (nextProcedureStep p) steps a))
         \<and> userProgress (fold (nextProcedureStep p) steps a) = userProgress a
         \<and> localStorage (fold (nextProcedureStep p) steps a) = localStorage a
         \<and> notifications (page (fold (nextProcedureStep p) steps a)) = notifications (page a)
         \<and> procedure_content (page (fold (nextProcedureStep p) steps a)) =
             (if steps = [] then procedure_content (page a) else StepContent (last steps) p)"
  using assms
  by (induction steps rule: rev_induct)
     (simp_all add: nextProcedureStep_def getProcedureStepContent_def)

lemma run_advance:
  "run (map (AdvanceStep p) steps) a = fold (nextProcedureStep p) steps a"
  unfolding run_def by (induction steps arbitrary: a) simp_all

lemma run_Cons: "run (x # xs) a = run xs (dispatch x a)"
  by (simp add: run_def)

text \<open>
  C1 as stated fails. From the closed modal, opening \<open>cleaning\<close> and advancing to
  \<open>tell\<close>, to \<open>do\<close> and once more leaves the modal open, and the record has no badge.
\<close>

theorem modal_flow_counterexample:
  "\<not> modal_show (page fresh_app)
   \<and> modal_show (page (run [OpenProcedure ''cleaning'', AdvanceStep ''cleaning'' ''tell'',
        AdvanceStep ''cleaning'' ''do'', AdvanceStep ''cleaning'' ''done''] fresh_app))
   \<and> badges (userProgress (run [OpenProcedure ''cleaning'', AdvanceStep ''cleaning'' ''tell'',
        AdvanceStep ''cleaning'' ''do'', AdvanceStep ''cleaning'' ''done''] fresh_app)) = []"
  by (simp add: run_def startProcedure_def nextProcedureStep_def showProcedureModal_def
      fresh_app_def home_page_def defaultProgress_def Let_def)

text \<open>
  C1, amended. When the modal elements exist, opening \<open>cleaning\<close> shows the modal on the
  Show step of cleaning, whose button advances to \<open>tell\<close>. Each advance replaces the
  content by the placeholder of the step it names. After any number of advances,
  whatever the steps, the modal is still open and the record, the persisted slot and the
  notifications are as before the flow: no advance closes the modal or awards a badge.
  Only \<^verbatim>\<open>closeModal\<close> closes it, and it leaves the record alone.
\<close>

theorem modal_flow:
  assumes "has_modal (page a)" "has_modal_title (page a)" "has_procedure_content (page a)"
  shows "page (run [OpenProcedure ''cleaning''] a) =
           (page a)\<lparr>modal_title := ''Tooth Cleaning Adventure'',
                     procedure_content :=
                       ProcedureSteps ''Step 1 of 3: SHOW'' ''Let me show you how we clean teeth!''
                         ''cleaning'' ''tell'',
                     modal_show := True, body_overflow := ''hidden''\<rparr>
         \<and> modal_show (page (run (OpenProcedure ''cleaning'' # map (AdvanceStep ''cleaning'') steps) a))
         \<and> (steps \<noteq> [] \<longrightarrow>
              procedure_content
                (page (run (OpenProcedure ''cleaning'' # map (AdvanceStep ''cleaning'') steps) a)) =
              StepContent (last steps) ''cleaning'')
         \<and> userProgress (run (OpenProcedure ''cleaning'' # map (AdvanceStep ''cleaning'') steps) a) =
             userProgress a
         \<and> localStorage (run (OpenProcedure ''cleaning'' # map (AdvanceStep ''cleaning'') steps) a) =
             localStorage a
         \<and> notifications
               (page (run (OpenProcedure ''cleaning'' # map (AdvanceStep ''cleaning'') steps) a)) =
             notifications (page a)
         \<and> \<not> modal_show (page (closeModal
               (run (OpenProcedure ''cleaning'' # map (AdvanceStep ''cleaning'') steps) a)))
         \<and> userProgress (closeModal
               (run (OpenProcedure ''cleaning'' # map (AdvanceStep ''cleaning'') steps) a)) =
             userProgress a"
proof -
  let ?o = "showProcedureModal ''cleaning'' a"
  have o: "page ?o =
           (page a)\<lparr>modal_title := ''Tooth Cleaning Adventure'',
                     procedure_content :=
                       ProcedureSteps ''Step 1 of 3: SHOW'' ''Let me show you how we clean teeth!''
                         ''cleaning'' ''tell'',
                     modal_show := True, body_overflow := ''hidden''\<rparr>"
    and f: "userProgress ?o = userProgress a" "localStorage ?o = localStorage a"
    using assms
    by (simp_all add: showProcedureModal_def Let_def getProcedureData_def procedures_get_def
        procedures_def cleaning_def)
  have c: "has_procedure_content (page ?o)" using assms o by simp
  have r: "run (OpenProcedure ''cleaning'' # map (AdvanceStep ''cleaning'') steps) a =
           fold (nextProcedureStep ''cleaning'') steps ?o"
    by (simp add: run_Cons run_advance startProcedure_def)
  have m: "has_modal (page (fold (nextProcedureStep ''cleaning'') steps ?o))"
    using assms(1) o by (induction steps rule: rev_induct) (simp_all add: nextProcedureStep_def)
  note n = nextProcedureStep_fold [OF c, of "''cleaning''" steps]
  have 1: "page (run [OpenProcedure ''cleaning''] a) = page ?o"
    by (simp add: run_def startProcedure_def)
  show ?thesis
    unfolding r 1 using n o f m by (simp add: closeModal_def)
qed

theorem modal_flow_witness:
  "modal_show (page (run (OpenProcedure ''cleaning'' #
       map (AdvanceStep ''cleaning'') [''tell'', ''do'', ''done'']) fresh_app))
   \<and> procedure_content (page (run (OpenProcedure ''cleaning'' #
       map (AdvanceStep ''cleaning'') [''tell'', ''do'', ''done'']) fresh_app)) =
       StepContent ''done'' ''cleaning''
   \<and> userProgress (run (OpenProcedure ''cleaning'' #
       map (AdvanceStep ''cleaning'') [''tell'', ''do'', ''done'']) fresh_app) = defaultProgress"
proof -
  have h: "has_modal (page fresh_app)" "has_modal_title (page fresh_app)"
    "has_procedure_content (page fresh_app)"
    by (simp_all add: fresh_app_def home_page_def)
  show ?thesis
    using modal_flow [OF h, of "[''tell'', ''do'', ''done'']"]
    by (simp add: fresh_app_def)
qed

subsection \<open>Badges\<close>

lemma find_id_case:
  "(case find (\<lambda>b. id_badge b = i) bs of None \<Rightarrow> x | Some b \<Rightarrow> y) =
   (if i \<in> set (map id_badge bs) then y else x)"
  by (induction bs) auto

lemma awardBadge_if:
  "awardBadge i n c t a =
     (if i \<in> set (badge_ids a) then a
      else showBadgeNotification n c
             (saveProgress
                (a\<lparr>userProgress := (userProgress a)\<lparr>badges :=
                      badges (userProgress a) @
                        [\<lparr>id_badge = i, name = n, icon = c, earnedAt = t\<rparr>]\<rparr>\<rparr>)))"
  unfolding awardBadge_def badge_ids_def by (rule find_id_case)

lemma saveProgress_badges:
  "badges (userProgress (saveProgress a)) = badges (userProgress a)"
  by (simp add: saveProgress_def Let_def)

lemma showBadgeNotification_userProgress:
  "userProgress (showBadgeNotification n c a) = userProgress a"
  by (simp add: showBadgeNotification_def)

lemma awardBadge_ids:
  "badge_ids (awardBadge i n c t a) =
     (if i \<in> set (badge_ids a) then badge_ids a else badge_ids a @ [i])"
  by (simp add: awardBadge_if)
     (simp add: badge_ids_def showBadgeNotification_userProgress saveProgress_badges)

lemma awardBadge_has: "i \<in> set (badge_ids (awardBadge i n c t a))"
  by (simp add: awardBadge_ids)

lemma awardBadge_again:
  "awardBadge i n' c' t' (awardBadge i n c t a) = awardBadge i n c t a"
  by (subst awardBadge_if) (simp add: awardBadge_has)

lemma awardBadge_funpow:
  "(awardBadge i n c t ^^ Suc k) a = awardBadge i n c t a"
  by (induction k) (simp_all add: awardBadge_again)

lemma dispatch_distinct:
  "distinct (badge_ids a) \<Longrightarrow> distinct (badge_ids (dispatch x a))"
proof (cases x)
  case (AwardBadge i n c t)
  then show "distinct (badge_ids a) \<Longrightarrow> ?thesis"
    by (simp add: awardBadge_ids)
qed (auto simp add: badge_ids_def navButton_click_eq fire_timer_def
       showTargetSection_def startProcedure_def showProcedureModal_def Let_def
       nextProcedureStep_def closeModal_def toggleSound_def soundToggle_click_def
       saveProgress_def split: list.splits option.splits)

lemma run_distinct:
  "distinct (badge_ids a) \<Longrightarrow> distinct (badge_ids (run xs a))"
  unfolding run_def
  by (induction xs arbitrary: a) (simp_all add: dispatch_distinct)

lemma count_one: "distinct xs \<Longrightarrow> x \<in> set xs \<Longrightarrow> length (filter (\<lambda>y. y = x) xs) = 1"
  by (induction xs) (auto simp: filter_empty_conv)

text \<open>
  C2. Awarding a badge id a second time, with whatever name, icon and time, changes
  nothing at all: the state after the second call is the state after the first, so the
  record, the persisted slot and the notifications are untouched. The same holds for any
  number of repetitions, and for any call whose id is already in the record. In a record
  whose badge ids are pairwise different, the record has exactly one badge with the id
  after the award, and the ids stay pairwise different under every sequence of
  operations.
\<close>

theorem awardBadge_idempotent:
  "awardBadge i n' c' t' (awardBadge i n c t a) = awardBadge i n c t a
   \<and> (awardBadge i n c t ^^ Suc k) a = awardBadge i n c t a
   \<and> (i \<in> set (badge_ids a) \<longrightarrow> awardBadge i n c t a = a)
   \<and> (distinct (badge_ids a) \<longrightarrow>
        length (filter (\<lambda>b. id_badge b = i) (badges (userProgress (awardBadge i n c t a)))) = 1
        \<and> distinct (badge_ids (run xs a)))"
proof -
  have one: "length (filter (\<lambda>b. id_badge b = i) (badges (userProgress (awardBadge i n c t a)))) = 1"
    if d: "distinct (badge_ids a)"
  proof -
    have "distinct (badge_ids (awardBadge i n c t a))"
      using d by (simp add: awardBadge_ids)
    from count_one [OF this awardBadge_has]
    have "length (filter (\<lambda>y. y = i) (badge_ids (awardBadge i n c t a))) = 1" .
    then show ?thesis by (simp add: badge_ids_def filter_map comp_def)
  qed
  have noop: "awardBadge i n c t a = a" if "i \<in> set (badge_ids a)"
    using that by (simp add: awardBadge_if)
  show ?thesis
    using one noop awardBadge_again awardBadge_funpow run_distinct
    by simp
qed

theorem awardBadge_idempotent_witness:
  "awardBadge ''completed-cleaning'' ''Cleaning Champion'' ''star'' ''2024-05-02T08:00:00.000Z''
     (awardBadge ''completed-cleaning'' ''Cleaning Champion'' ''star'' ''2024-05-01T10:00:00.000Z''
        fresh_app) =
   awardBadge ''completed-cleaning'' ''Cleaning Champion'' ''star'' ''2024-05-01T10:00:00.000Z''
     fresh_app
   \<and> length (filter (\<lambda>b. id_badge b = ''completed-cleaning'')
        (badges (userProgress
           (awardBadge ''completed-cleaning'' ''Cleaning Champion'' ''star''
              ''2024-05-01T10:00:00.000Z'' fresh_app)))) = 1
   \<and> distinct (badge_ids
        (run [AwardBadge ''completed-cleaning'' ''Cleaning Champion'' ''star''
                ''2024-05-01T10:00:00.000Z'',
              ToggleSound,
              AwardBadge ''completed-cleaning'' ''Cleaning Champion'' ''star''
                ''2024-05-02T08:00:00.000Z''] fresh_app))"
  using awardBadge_idempotent
    [of "''completed-cleaning''" "''Cleaning Champion''" "''star''"
        "''2024-05-02T08:00:00.000Z''" "''Cleaning Champion''" "''star''"
        "''2024-05-01T10:00:00.000Z''" fresh_app 0
        "[AwardBadge ''completed-cleaning'' ''Cleaning Champion'' ''star''
                ''2024-05-01T10:00:00.000Z'',
              ToggleSound,
              AwardBadge ''completed-cleaning'' ''Cleaning Champion'' ''star''
                ''2024-05-02T08:00:00.000Z'']"]
  by (simp add: badge_ids_def fresh_app_def defaultProgress_def)

subsection \<open>What the operations leave alone\<close>

lemma dispatch_frame:
  "completedProcedures (userProgress (dispatch x a)) = completedProcedures (userProgress a)
   \<and> visitCount (userProgress (dispatch x a)) = visitCount (userProgress a)"
  by (cases x)
     (auto simp add: navButton_click_eq fire_timer_def showTargetSection_def
       startProcedure_def showProcedureModal_def Let_def nextProcedureStep_def closeModal_def
       toggleSound_def soundToggle_click_def awardBadge_if saveProgress_def
       showBadgeNotification_def
       split: list.splits option.splits)

lemma run_frame:
  "completedProcedures (userProgress (run xs a)) = completedProcedures (userProgress a)
   \<and> visitCount (userProgress (run xs a)) = visitCount (userProgress a)"
  unfolding run_def
  by (induction xs arbitrary: a) (simp_all add: dispatch_frame)

text \<open>
  C10. Every sequence of operations (navigation and its callback, opening, advancing and
  closing the modal, awarding a badge, toggling the sound, saving) leaves
  \<open>completedProcedures\<close> and \<open>visitCount\<close> of the record as they were. \<^verbatim>\<open>awardBadge\<close>
  changes the record only when the id is new, and then only by appending the badge and
  by copying the controller's sound flag into \<open>soundEnabled\<close>.
\<close>

theorem operations_frame:
  "completedProcedures (userProgress (run xs a)) = completedProcedures (userProgress a)
   \<and> visitCount (userProgress (run xs a)) = visitCount (userProgress a)
   \<and> userProgress (awardBadge i n c t a) =
       (if i \<in> set (badge_ids a) then userProgress a
        else (userProgress a)
               \<lparr>badges := badges (userProgress a) @
                   [\<lparr>id_badge = i, name = n, icon = c, earnedAt = t\<rparr>],
                soundEnabled_pr := soundEnabled a\<rparr>)"
  by (simp add: run_frame awardBadge_if saveProgress_def Let_def showBadgeNotification_def)

theorem operations_frame_witness:
  "completedProcedures (userProgress
     (run [Navigate ''progress'', TimerFires, OpenProcedure ''xray'',
           AdvanceStep ''xray'' ''tell'', CloseModal, ToggleSound,
           AwardBadge ''completed-xray'' ''X-Ray Hero'' ''camera'' ''2024-05-01T10:00:00.000Z'',
           Save]
        (fresh_app\<lparr>userProgress := defaultProgress\<lparr>completedProcedures := [''xray''],
                                                      visitCount := 3\<rparr>\<rparr>))) = [''xray'']
   \<and> visitCount (userProgress
     (run [Navigate ''progress'', TimerFires, OpenProcedure ''xray'',
           AdvanceStep ''xray'' ''tell'', CloseModal, ToggleSound,
           AwardBadge ''completed-xray'' ''X-Ray Hero'' ''camera'' ''2024-05-01T10:00:00.000Z'',
           Save]
        (fresh_app\<lparr>userProgress := defaultProgress\<lparr>completedProcedures := [''xray''],
                                                      visitCount := 3\<rparr>\<rparr>))) = 3
   \<and> userProgress
       (awardBadge ''completed-xray'' ''X-Ray Hero'' ''camera'' ''2024-05-01T10:00:00.000Z''
          (fresh_app\<lparr>soundEnabled := False\<rparr>)) =
       \<lparr>completedProcedures = [],
        badges = [\<lparr>id_badge = ''completed-xray'', name = ''X-Ray Hero'', icon = ''camera'',
                   earnedAt = ''2024-05-01T10:00:00.000Z''\<rparr>],
        soundEnabled_pr = False, visitCount = 0\<rparr>"
  using operations_frame
    [of "[Navigate ''progress'', TimerFires, OpenProcedure ''xray'',
           AdvanceStep ''xray'' ''tell'', CloseModal, ToggleSound,
           AwardBadge ''completed-xray'' ''X-Ray Hero'' ''camera'' ''2024-05-01T10:00:00.000Z'',
           Save]"
        "fresh_app\<lparr>userProgress := defaultProgress\<lparr>completedProcedures := [''xray''],
                                                      visitCount := 3\<rparr>\<rparr>"]
    operations_frame
    [of "[]" "fresh_app\<lparr>soundEnabled := False\<rparr>" "''completed-xray''" "''X-Ray Hero''"
        "''camera''" "''2024-05-01T10:00:00.000Z''"]
  by (simp add: badge_ids_def fresh_app_def defaultProgress_def)

end
